theory Spec2Isabelle
  imports Main "HOL-Library.Char_ord" "HOL-Library.List_Lexorder" "HOL-Library.Sublist"
begin

unbundle bit_operations_syntax

section \<open>Request keys of the crawler: \<^verbatim>\<open>crawlee/_utils/requests.py\<close>\<close>

text \<open>
  The module has three functions: \<^verbatim>\<open>unique_key_to_request_id\<close>, \<^verbatim>\<open>normalize_url\<close> and
  \<^verbatim>\<open>compute_unique_key\<close>. They are pure; all the work is done by Python's \<^verbatim>\<open>str\<close>
  methods and by \<^verbatim>\<open>urllib.parse\<close>, \<^verbatim>\<open>hashlib\<close> and \<^verbatim>\<open>base64\<close>, which are
  embedded here as HOL functions next to the three functions of the module.

  \<^bold>\<open>Strings.\<close> A Python \<^verbatim>\<open>str\<close> is a \<open>string\<close>: the list of its UTF-8 code units, so an
  ASCII character is one \<open>char\<close> and \<^verbatim>\<open>s.encode('utf-8')\<close> keeps the list as it is.
  The order of \<open>HOL-Library.Char_ord\<close> and \<open>HOL-Library.List_Lexorder\<close> is the order
  Python compares strings by. The case and white-space methods (\<^verbatim>\<open>lower\<close>, \<^verbatim>\<open>upper\<close>,
  \<^verbatim>\<open>strip\<close>) are embedded for ASCII characters and leave every other code unit alone;
  the embedding is exact for URLs, methods and header names of ASCII characters.

  \<^bold>\<open>Errors.\<close> A function that can raise returns \<open>error + 'a\<close>, with \<open>Inl\<close> the exception.
\<close>

subsection \<open>Python's string methods\<close>

definition isspace :: "char \<Rightarrow> bool" where
  "isspace c = (c \<in> set [CHR 0x09, CHR 0x0A, CHR 0x0B, CHR 0x0C, CHR 0x0D,
                          CHR 0x1C, CHR 0x1D, CHR 0x1E, CHR 0x1F, CHR 0x20])"

definition isupper :: "char \<Rightarrow> bool" where
  "isupper c = (CHR ''A'' \<le> c \<and> c \<le> CHR ''Z'')"

definition islower :: "char \<Rightarrow> bool" where
  "islower c = (CHR ''a'' \<le> c \<and> c \<le> CHR ''z'')"

definition isalpha :: "char \<Rightarrow> bool" where
  "isalpha c = (isupper c \<or> islower c)"

definition isascii :: "string \<Rightarrow> bool" where
  "isascii s = list_all (\<lambda>c. c < CHR 0x80) s"

definition lower_char :: "char \<Rightarrow> char" where
  "lower_char c = (if isupper c then char_of (of_char c + (32 :: nat)) else c)"

definition upper_char :: "char \<Rightarrow> char" where
  "upper_char c = (if islower c then char_of (of_char c - (32 :: nat)) else c)"

definition lower :: "string \<Rightarrow> string" where
  "lower s = map lower_char s"

definition upper :: "string \<Rightarrow> string" where
  "upper s = map upper_char s"

text \<open>\<^verbatim>\<open>s.lstrip(chars)\<close>, \<^verbatim>\<open>s.rstrip(chars)\<close> and \<^verbatim>\<open>s.strip()\<close>.\<close>

definition lstrip :: "string \<Rightarrow> string \<Rightarrow> string" where
  "lstrip chars s = dropWhile (\<lambda>c. c \<in> set chars) s"

definition rstrip :: "string \<Rightarrow> string \<Rightarrow> string" where
  "rstrip chars s = rev (dropWhile (\<lambda>c. c \<in> set chars) (rev s))"

definition strip :: "string \<Rightarrow> string" where
  "strip s = rev (dropWhile isspace (rev (dropWhile isspace s)))"

text \<open>\<^verbatim>\<open>s.startswith(p)\<close> is \<open>prefix p s\<close>; \<^verbatim>\<open>s.replace(a, b)\<close> for single characters.\<close>

definition replace :: "char \<Rightarrow> string \<Rightarrow> string \<Rightarrow> string" where
  "replace a b s = concat (map (\<lambda>c. if c = a then b else [c]) s)"

text \<open>\<^verbatim>\<open>s.find(c)\<close>: the first index of \<open>c\<close>, \<open>None\<close> for Python's \<open>-1\<close>;
  \<^verbatim>\<open>s.rfind(c)\<close>: the last one.\<close>

fun find :: "char \<Rightarrow> string \<Rightarrow> nat option" where
  "find c [] = None"
| "find c (x # xs) = (if x = c then Some 0 else map_option Suc (find c xs))"

definition rfind :: "char \<Rightarrow> string \<Rightarrow> nat option" where
  "rfind c s = map_option (\<lambda>j. length s - 1 - j) (find c (rev s))"

text \<open>\<^verbatim>\<open>s.partition(c)\<close>: the text before the first \<open>c\<close>, whether there is one, the text after it.\<close>

definition partition :: "char \<Rightarrow> string \<Rightarrow> string \<times> bool \<times> string" where
  "partition c s = (takeWhile (\<lambda>x. x \<noteq> c) s, c \<in> set s, drop 1 (dropWhile (\<lambda>x. x \<noteq> c) s))"

text \<open>\<^verbatim>\<open>s.split(c)\<close>: the fields between the occurrences of \<open>c\<close>; never an empty list.\<close>

fun split :: "char \<Rightarrow> string \<Rightarrow> string list" where
  "split c [] = [[]]"
| "split c (x # xs) =
     (if x = c then [] # split c xs
      else (case split c xs of f # fs \<Rightarrow> (x # f) # fs | [] \<Rightarrow> [[x]]))"

text \<open>\<^verbatim>\<open>sep.join(parts)\<close>.\<close>

fun join :: "string \<Rightarrow> string list \<Rightarrow> string" where
  "join sep [] = []"
| "join sep [p] = p"
| "join sep (p # q # ps) = p @ sep @ join sep (q # ps)"

text \<open>\<^verbatim>\<open>s[:n]\<close> for an \<^verbatim>\<open>int\<close> \<open>n\<close>: a negative \<open>n\<close> counts from the end.\<close>

definition slice_to :: "int \<Rightarrow> 'a list \<Rightarrow> 'a list" where
  "slice_to n s = (if n < 0 then take (nat (int (length s) + n)) s else take (nat n) s)"

subsection \<open>\<^verbatim>\<open>urllib.parse\<close> (CPython 3.11)\<close>

text \<open>
  What the interpreter and the rest of the package contribute and this file does not
  embed is a parameter of the model:
  \<^item> \<open>check_bracketed_host h\<close>: \<^verbatim>\<open>_check_bracketed_host(h)\<close> returns (it validates the
    host between \<open>[\<close> and \<open>]\<close> as an IPv6 or IPvFuture address with \<^verbatim>\<open>ipaddress\<close>;
    interpreters before 3.11.4 have no such check);
  \<^item> \<open>checknetloc_nfkc n\<close>: \<^verbatim>\<open>_checknetloc(n)\<close> returns for a netloc \<open>n\<close> that is not
    ASCII (it compares \<open>n\<close> with its NFKC normal form);
  \<^item> \<open>compute_short_hash\<close>: \<^verbatim>\<open>crawlee._utils.crypto.compute_short_hash\<close>, the digest of
    the payload.
\<close>

text \<open>Python's \<^verbatim>\<open>bytes\<close>: a list of 8-bit characters.\<close>

type_synonym bytes = "char list"

record externals =
  check_bracketed_host :: "string \<Rightarrow> bool"
  checknetloc_nfkc :: "string \<Rightarrow> bool"
  compute_short_hash :: "bytes \<Rightarrow> string"

datatype error =
    Invalid_IPv6_URL
  | Invalid_bracketed_host
  | Invalid_netloc_NFKC
  | KeyError string

record SplitResult =
  scheme :: string
  netloc :: string
  path :: string
  query :: string
  fragment :: string

record ParseResult = SplitResult +
  params :: string

definition uses_netloc :: "string list" where
  "uses_netloc = ['''', ''ftp'', ''http'', ''gopher'', ''nntp'', ''telnet'',
     ''imap'', ''wais'', ''file'', ''mms'', ''https'', ''shttp'',
     ''snews'', ''prospero'', ''rtsp'', ''rtsps'', ''rtspu'', ''rsync'',
     ''svn'', ''svn+ssh'', ''sftp'', ''nfs'', ''git'', ''git+ssh'',
     ''ws'', ''wss'']"

definition uses_params :: "string list" where
  "uses_params = ['''', ''ftp'', ''hdl'', ''prospero'', ''http'', ''imap'',
     ''https'', ''shttp'', ''rtsp'', ''rtsps'', ''rtspu'', ''sip'',
     ''sips'', ''mms'', ''sftp'', ''tel'']"

definition scheme_chars :: string where
  "scheme_chars = ''abcdefghijklmnopqrstuvwxyz'' @ ''ABCDEFGHIJKLMNOPQRSTUVWXYZ''
     @ ''0123456789'' @ ''+-.''"

definition WHATWG_C0_CONTROL_OR_SPACE :: string where
  "WHATWG_C0_CONTROL_OR_SPACE = map char_of [0 ..< 33 :: nat]"

definition UNSAFE_URL_BYTES_TO_REMOVE :: string where
  "UNSAFE_URL_BYTES_TO_REMOVE = [CHR 0x09, CHR 0x0D, CHR 0x0A]"

text \<open>\<^verbatim>\<open>_splitnetloc(url, 2)\<close>: the netloc runs from index 2 to the first of \<open>/?#\<close>.\<close>

definition splitnetloc :: "string \<Rightarrow> string \<times> string" where
  "splitnetloc url =
     (takeWhile (\<lambda>c. c \<notin> set ''/?#'') (drop 2 url),
      dropWhile (\<lambda>c. c \<notin> set ''/?#'') (drop 2 url))"

text \<open>The scheme: the text before the first \<open>:\<close>, when it starts with an ASCII letter
  and holds scheme characters only.\<close>

definition split_scheme :: "string \<Rightarrow> string \<times> string" where
  "split_scheme url =
     (case find CHR '':'' url of
        None \<Rightarrow> ('''', url)
      | Some i \<Rightarrow>
          if 0 < i \<and> isalpha (hd url) \<and> list_all (\<lambda>c. c \<in> set scheme_chars) (take i url)
          then (lower (take i url), drop (i + 1) url)
          else ('''', url))"

definition checknetloc :: "externals \<Rightarrow> string \<Rightarrow> bool" where
  "checknetloc X n = (n = [] \<or> isascii n \<or> checknetloc_nfkc X n)"

definition urlsplit :: "externals \<Rightarrow> string \<Rightarrow> error + SplitResult" where
  "urlsplit X url0 =
     (let url1 = lstrip WHATWG_C0_CONTROL_OR_SPACE url0;
          url2 = filter (\<lambda>c. c \<notin> set UNSAFE_URL_BYTES_TO_REMOVE) url1;
          (sch, url3) = split_scheme url2;
          (nl, url4) = (if take 2 url3 = ''//'' then splitnetloc url3 else ('''', url3));
          (url5, frag) = (if CHR ''#'' \<in> set url4
                          then (case partition CHR ''#'' url4 of (a, _, b) \<Rightarrow> (a, b))
                          else (url4, ''''));
          (url6, qry) = (if CHR ''?'' \<in> set url5
                         then (case partition CHR ''?'' url5 of (a, _, b) \<Rightarrow> (a, b))
                         else (url5, ''''))
      in if take 2 url3 = ''//'' \<and>
            ((CHR ''['' \<in> set nl \<and> CHR '']'' \<notin> set nl) \<or> (CHR '']'' \<in> set nl \<and> CHR ''['' \<notin> set nl))
         then Inl Invalid_IPv6_URL
         else if take 2 url3 = ''//'' \<and> CHR ''['' \<in> set nl \<and> CHR '']'' \<in> set nl \<and>
            \<not> check_bracketed_host X
                (fst (partition CHR '']'' (snd (snd (partition CHR ''['' nl)))))
         then Inl Invalid_bracketed_host
         else if \<not> checknetloc X nl then Inl Invalid_netloc_NFKC
         else Inr \<lparr>scheme = sch, netloc = nl, path = url6, query = qry, fragment = frag\<rparr>)"

text \<open>\<^verbatim>\<open>_splitparams(url)\<close>. In the second branch \<^verbatim>\<open>find\<close> may return \<open>-1\<close>; the slices
  \<^verbatim>\<open>url[:-1]\<close> and \<^verbatim>\<open>url[0:]\<close> are then what Python computes.\<close>

definition splitparams :: "string \<Rightarrow> string \<times> string" where
  "splitparams url =
     (case rfind CHR ''/'' url of
        Some k \<Rightarrow>
          (case find CHR '';'' (drop k url) of
             None \<Rightarrow> (url, '''')
           | Some j \<Rightarrow> (take (k + j) url, drop (k + j + 1) url))
      | None \<Rightarrow>
          (case find CHR '';'' url of
             None \<Rightarrow> (butlast url, url)
           | Some i \<Rightarrow> (take i url, drop (i + 1) url)))"

definition urlparse :: "externals \<Rightarrow> string \<Rightarrow> error + ParseResult" where
  "urlparse X url =
     (case urlsplit X url of
        Inl e \<Rightarrow> Inl e
      | Inr r \<Rightarrow>
          (let (url', ps) = (if scheme r \<in> set uses_params \<and> CHR '';'' \<in> set (path r)
                             then splitparams (path r) else (path r, ''''))
           in Inr \<lparr>scheme = scheme r, netloc = netloc r, path = url', query = query r,
                   fragment = fragment r, params = ps\<rparr>))"

definition urlunsplit :: "SplitResult \<Rightarrow> string" where
  "urlunsplit r =
     (let url1 = (if netloc r \<noteq> [] \<or> (scheme r \<noteq> [] \<and> scheme r \<in> set uses_netloc)
                     \<or> take 2 (path r) = ''//''
                  then ''//'' @ netloc r @
                       (if path r \<noteq> [] \<and> take 1 (path r) \<noteq> ''/'' then ''/'' @ path r else path r)
                  else path r);
          url2 = (if scheme r \<noteq> [] then scheme r @ '':'' @ url1 else url1);
          url3 = (if query r \<noteq> [] then url2 @ ''?'' @ query r else url2)
      in if fragment r \<noteq> [] then url3 @ ''#'' @ fragment r else url3)"

definition urlunparse :: "ParseResult \<Rightarrow> string" where
  "urlunparse r =
     urlunsplit \<lparr>scheme = scheme r, netloc = netloc r,
                 path = (if params r \<noteq> [] then path r @ '';'' @ params r else path r),
                 query = query r, fragment = fragment r\<rparr>"

subsection \<open>Query strings: \<^verbatim>\<open>parse_qsl\<close> and \<^verbatim>\<open>urlencode\<close>\<close>

definition hexdig :: string where
  "hexdig = ''0123456789ABCDEFabcdef''"

text \<open>The value of a hexadecimal digit, either case.\<close>

definition hexval :: "char \<Rightarrow> nat" where
  "hexval c =
     (if CHR ''0'' \<le> c \<and> c \<le> CHR ''9'' then of_char c - 48
      else if CHR ''A'' \<le> c \<and> c \<le> CHR ''F'' then of_char c - 55
      else of_char c - 87)"

text \<open>\<^verbatim>\<open>unquote_to_bytes\<close>: every \<open>%\<close> followed by two hexadecimal digits is the byte
  they name; any other \<open>%\<close> stays.\<close>

fun unquote_to_bytes :: "string \<Rightarrow> bytes" where
  "unquote_to_bytes [] = []"
| "unquote_to_bytes (c # cs) =
     (if c = CHR ''%'' \<and> 2 \<le> length cs \<and> cs ! 0 \<in> set hexdig \<and> cs ! 1 \<in> set hexdig
      then char_of (16 * hexval (cs ! 0) + hexval (cs ! 1)) # unquote_to_bytes (drop 2 cs)
      else c # unquote_to_bytes cs)"

text \<open>\<^verbatim>\<open>b.decode('utf-8', 'replace')\<close>, the result again in UTF-8: a well-formed sequence
  stays, and the decoder puts U+FFFD (\<open>EF BF BD\<close>) for an ill-formed one: for a byte that
  cannot start a sequence, for the bytes of a sequence up to the first one that cannot
  continue it, and for a sequence cut off by the end of the data.\<close>

definition REPLACEMENT :: string where
  "REPLACEMENT = [CHR 0xEF, CHR 0xBF, CHR 0xBD]"

definition continuation :: "char \<Rightarrow> bool" where
  "continuation c = (CHR 0x80 \<le> c \<and> c < CHR 0xC0)"

fun decode_utf8_replace :: "bytes \<Rightarrow> string" where
  "decode_utf8_replace [] = []"
| "decode_utf8_replace (b # bs) =
     (if b < CHR 0x80 then b # decode_utf8_replace bs
      else if b < CHR 0xC2 then REPLACEMENT @ decode_utf8_replace bs
      else if b < CHR 0xE0 then
        (case bs of
           [] \<Rightarrow> REPLACEMENT
         | c # cs \<Rightarrow>
             if continuation c then b # c # decode_utf8_replace cs
             else REPLACEMENT @ decode_utf8_replace bs)
      else if b < CHR 0xF0 then
        (case bs of
           [] \<Rightarrow> REPLACEMENT
         | c # cs \<Rightarrow>
             if \<not> continuation c \<or> (b = CHR 0xE0 \<and> c < CHR 0xA0) \<or> (b = CHR 0xED \<and> CHR 0xA0 \<le> c)
             then REPLACEMENT @ decode_utf8_replace bs
             else (case cs of
                [] \<Rightarrow> REPLACEMENT
              | d # ds \<Rightarrow>
                  if continuation d then b # c # d # decode_utf8_replace ds
                  else REPLACEMENT @ decode_utf8_replace cs))
      else if b < CHR 0xF5 then
        (case bs of
           [] \<Rightarrow> REPLACEMENT
         | c # cs \<Rightarrow>
             if \<not> continuation c \<or> (b = CHR 0xF0 \<and> c < CHR 0x90) \<or> (b = CHR 0xF4 \<and> CHR 0x90 \<le> c)
             then REPLACEMENT @ decode_utf8_replace bs
             else (case cs of
                [] \<Rightarrow> REPLACEMENT
              | d # ds \<Rightarrow>
                  if \<not> continuation d then REPLACEMENT @ decode_utf8_replace cs
                  else (case ds of
                     [] \<Rightarrow> REPLACEMENT
                   | e # es \<Rightarrow>
                       if continuation e then b # c # d # e # decode_utf8_replace es
                       else REPLACEMENT @ decode_utf8_replace ds)))
      else REPLACEMENT @ decode_utf8_replace bs)"

text \<open>\<^verbatim>\<open>unquote(s, 'utf-8', 'replace')\<close> and \<^verbatim>\<open>unquote_plus\<close>, for an ASCII \<open>s\<close> (a query is
  a part of the URL).\<close>

definition unquote :: "string \<Rightarrow> string" where
  "unquote s = (if CHR ''%'' \<notin> set s then s else decode_utf8_replace (unquote_to_bytes s))"

definition unquote_plus :: "string \<Rightarrow> string" where
  "unquote_plus s = unquote (replace CHR ''+'' '' '' s)"

text \<open>\<^verbatim>\<open>parse_qsl(qs)\<close> with its defaults: blank values are dropped, fields are separated
  by \<open>&\<close>, nothing is an error.\<close>

fun parse_fields :: "string list \<Rightarrow> (string \<times> string) list" where
  "parse_fields [] = []"
| "parse_fields (name_value # rest) =
     (if name_value \<noteq> [] then
        (case partition CHR ''='' name_value of
           (name, has_eq, val) \<Rightarrow>
             if val \<noteq> [] then (unquote_plus name, unquote_plus val) # parse_fields rest
             else parse_fields rest)
      else parse_fields rest)"

definition parse_qsl :: "string \<Rightarrow> (string \<times> string) list" where
  "parse_qsl qs = (if qs = [] then [] else parse_fields (split CHR ''&'' qs))"

text \<open>\<^verbatim>\<open>quote\<close>: a byte outside the always-safe set and \<open>safe\<close> becomes \<open>%XX\<close>, with upper-case
  digits.\<close>

definition ALWAYS_SAFE :: string where
  "ALWAYS_SAFE = ''ABCDEFGHIJKLMNOPQRSTUVWXYZ'' @ ''abcdefghijklmnopqrstuvwxyz''
     @ ''0123456789'' @ ''_.-~''"

definition quoter :: "string \<Rightarrow> char \<Rightarrow> string" where
  "quoter safe b =
     (if b \<in> set ALWAYS_SAFE \<or> b \<in> set safe then [b]
      else [CHR ''%'', hexdig ! (of_char b div 16), hexdig ! (of_char b mod 16)])"

definition quote :: "string \<Rightarrow> string \<Rightarrow> string" where
  "quote safe s = concat (map (quoter safe) s)"

definition quote_plus :: "string \<Rightarrow> string" where
  "quote_plus s =
     (if CHR '' '' \<notin> set s then quote [] s
      else replace CHR '' '' ''+'' (quote '' '' s))"

definition urlencode :: "(string \<times> string) list \<Rightarrow> string" where
  "urlencode q = join ''&'' (map (\<lambda>(k, v). quote_plus k @ ''='' @ quote_plus v) q)"

subsection \<open>Python's \<^verbatim>\<open>dict\<close>\<close>

text \<open>A dictionary keeps its keys in the order of their first insertion: an association
  list with distinct keys. \<open>setitem\<close> is \<^verbatim>\<open>d[k] = v\<close>, \<open>dict_of\<close> is \<^verbatim>\<open>dict(pairs)\<close>,
  \<open>getitem\<close> is \<^verbatim>\<open>d[k]\<close>, which raises \<^verbatim>\<open>KeyError\<close> for a missing key.\<close>

type_synonym dict = "(string \<times> string) list"

fun setitem :: "dict \<Rightarrow> string \<Rightarrow> string \<Rightarrow> dict" where
  "setitem [] k v = [(k, v)]"
| "setitem ((k', v') # d) k v = (if k' = k then (k, v) # d else (k', v') # setitem d k v)"

definition dict_of :: "(string \<times> string) list \<Rightarrow> dict" where
  "dict_of pairs = foldl (\<lambda>d (k, v). setitem d k v) [] pairs"

definition getitem :: "dict \<Rightarrow> string \<Rightarrow> error + string" where
  "getitem d k = (case map_of d k of None \<Rightarrow> Inl (KeyError k) | Some v \<Rightarrow> Inr v)"

subsection \<open>\<^verbatim>\<open>normalize_url\<close>\<close>

text \<open>The list comprehension \<^verbatim>\<open>[(k, search_params[k]) for k in sorted_keys]\<close>; it stops at
  the first \<^verbatim>\<open>KeyError\<close>.\<close>

fun items_for :: "dict \<Rightarrow> string list \<Rightarrow> error + (string \<times> string) list" where
  "items_for d [] = Inr []"
| "items_for d (k # ks) =
     (case getitem d k of
        Inl e \<Rightarrow> Inl e
      | Inr v \<Rightarrow> (case items_for d ks of Inl e \<Rightarrow> Inl e | Inr r \<Rightarrow> Inr ((k, v) # r)))"

text \<open>Lines 59 to 66: the new query string, from the query of the parsed URL.\<close>

definition sorted_query :: "string \<Rightarrow> error + string" where
  "sorted_query qs =
     (let search_params = dict_of (parse_qsl qs);
          search_params = filter (\<lambda>(k, v). \<not> prefix ''utm_'' k) search_params;
          sorted_keys = sort (map fst search_params)
      in case items_for search_params sorted_keys of
           Inl e \<Rightarrow> Inl e
         | Inr items \<Rightarrow> Inr (urlencode items))"

definition normalize_url :: "externals \<Rightarrow> string \<Rightarrow> bool \<Rightarrow> error + string" where
  "normalize_url X url keep_url_fragment =
     (case urlparse X (strip url) of
        Inl e \<Rightarrow> Inl e
      | Inr parsed_url \<Rightarrow>
          (case sorted_query (query parsed_url) of
             Inl e \<Rightarrow> Inl e
           | Inr q \<Rightarrow>
               (let new_url = lower (urlunparse
                      (parsed_url\<lparr>query := q, scheme := scheme parsed_url,
                                  netloc := netloc parsed_url,
                                  path := rstrip ''/'' (path parsed_url)\<rparr>))
                in Inr (if \<not> keep_url_fragment then hd (split CHR ''#'' new_url)
                        else new_url))))"

subsection \<open>\<^verbatim>\<open>compute_unique_key\<close>\<close>

text \<open>\<^verbatim>\<open>HttpPayload\<close> is \<^verbatim>\<open>str\<close> or \<^verbatim>\<open>bytes\<close>; an absent argument is \<open>None\<close>.\<close>

datatype payload = Str string | Bytes bytes

text \<open>Truth values: \<^verbatim>\<open>None\<close> and the empty string, dictionary or list are false.\<close>

fun payload_truthy :: "payload option \<Rightarrow> bool" where
  "payload_truthy None = False"
| "payload_truthy (Some (Str s)) = (s \<noteq> [])"
| "payload_truthy (Some (Bytes b)) = (b \<noteq> [])"

fun truthy :: "'a list option \<Rightarrow> bool" where
  "truthy None = False"
| "truthy (Some xs) = (xs \<noteq> [])"

fun payload_in_bytes :: "payload \<Rightarrow> bytes" where
  "payload_in_bytes (Str s) = s"
| "payload_in_bytes (Bytes b) = b"

text \<open>Lines 116 to 120: the URL the key is built from.\<close>

definition normalized_url :: "externals \<Rightarrow> string \<Rightarrow> bool \<Rightarrow> string" where
  "normalized_url X url keep_url_fragment =
     (case normalize_url X url keep_url_fragment of Inr n \<Rightarrow> n | Inl exc \<Rightarrow> url)"

text \<open>Lines 122 to 134: the key without its headers.\<close>

definition extended_key ::
  "externals \<Rightarrow> string \<Rightarrow> string \<Rightarrow> payload option \<Rightarrow> bool \<Rightarrow> bool \<Rightarrow> string" where
  "extended_key X url method pl keep_url_fragment use_extended_unique_key =
     (let normalized_method = upper method in
      if use_extended_unique_key \<and> payload_truthy pl then
        (let payload_hash = compute_short_hash X (payload_in_bytes (the pl))
         in normalized_method @ ''('' @ payload_hash @ ''):''
              @ normalized_url X url keep_url_fragment)
      else normalized_url X url keep_url_fragment)"

text \<open>Line 138: \<^verbatim>\<open>[f'{header}:{headers[header]}' for header in whitelisted_headers if header in headers]\<close>.\<close>

fun header_parts :: "dict \<Rightarrow> string list \<Rightarrow> string list" where
  "header_parts headers [] = []"
| "header_parts headers (header # rest) =
     (case map_of headers header of
        Some v \<Rightarrow> (header @ '':'' @ v) # header_parts headers rest
      | None \<Rightarrow> header_parts headers rest)"

definition compute_unique_key ::
  "externals \<Rightarrow> string \<Rightarrow> string \<Rightarrow> payload option \<Rightarrow> bool \<Rightarrow> bool \<Rightarrow>
     dict option \<Rightarrow> string list option \<Rightarrow> string" where
  "compute_unique_key X url method pl keep_url_fragment use_extended_unique_key
       headers whitelisted_headers =
     (let extended_key = extended_key X url method pl keep_url_fragment use_extended_unique_key in
      if truthy headers \<and> truthy whitelisted_headers then
        (let header_part = join ''|'' (header_parts (the headers) (the whitelisted_headers))
         in extended_key @ ''|'' @ header_part)
      else extended_key)"

subsection \<open>\<^verbatim>\<open>hashlib.sha256\<close> and \<^verbatim>\<open>base64.b64encode\<close>\<close>

text \<open>SHA-256 (FIPS 180-4) on 32-bit words kept as natural numbers below \<open>2 ^ 32\<close>, the
  wrap-around of the addition written out.\<close>

definition add32 :: "nat \<Rightarrow> nat \<Rightarrow> nat" where
  "add32 x y = (x + y) mod 4294967296"

definition rotr :: "nat \<Rightarrow> nat \<Rightarrow> nat" where
  "rotr n x = x div 2 ^ n + (x mod 2 ^ n) * 2 ^ (32 - n)"

definition shr :: "nat \<Rightarrow> nat \<Rightarrow> nat" where
  "shr n x = x div 2 ^ n"

definition Ch :: "nat \<Rightarrow> nat \<Rightarrow> nat \<Rightarrow> nat" where
  "Ch x y z = (x AND y) XOR ((4294967295 - x) AND z)"

definition Maj :: "nat \<Rightarrow> nat \<Rightarrow> nat \<Rightarrow> nat" where
  "Maj x y z = (x AND y) XOR (x AND z) XOR (y AND z)"

definition bsig0 :: "nat \<Rightarrow> nat" where
  "bsig0 x = rotr 2 x XOR rotr 13 x XOR rotr 22 x"

definition bsig1 :: "nat \<Rightarrow> nat" where
  "bsig1 x = rotr 6 x XOR rotr 11 x XOR rotr 25 x"

definition ssig0 :: "nat \<Rightarrow> nat" where
  "ssig0 x = rotr 7 x XOR rotr 18 x XOR shr 3 x"

definition ssig1 :: "nat \<Rightarrow> nat" where
  "ssig1 x = rotr 17 x XOR rotr 19 x XOR shr 10 x"

definition K256 :: "nat list" where
  "K256 = [
  1116352408, 1899447441, 3049323471, 3921009573, 961987163, 1508970993, 2453635748, 2870763221,
  3624381080, 310598401, 607225278, 1426881987, 1925078388, 2162078206, 2614888103, 3248222580,
  3835390401, 4022224774, 264347078, 604807628, 770255983, 1249150122, 1555081692, 1996064986,
  2554220882, 2821834349, 2952996808, 3210313671, 3336571891, 3584528711, 113926993, 338241895,
  666307205, 773529912, 1294757372, 1396182291, 1695183700, 1986661051, 2177026350, 2456956037,
  2730485921, 2820302411, 3259730800, 3345764771, 3516065817, 3600352804, 4094571909, 275423344,
  430227734, 506948616, 659060556, 883997877, 958139571, 1322822218, 1537002063, 1747873779,
  1955562222, 2024104815, 2227730452, 2361852424, 2428436474, 2756734187, 3204031479, 3329325298]"

definition H0 :: "nat list" where
  "H0 = [1779033703, 3144134277, 1013904242, 2773480762,
         1359893119, 2600822924, 528734635, 1541459225]"

text \<open>Round \<open>t\<close> works on the eight state words and on the window \<open>W\<^sub>t, \<dots>, W\<^sub>t\<^sub>+\<^sub>1\<^sub>5\<close> of the
  message schedule; the window then moves on by one word.\<close>

definition next_word :: "nat list \<Rightarrow> nat" where
  "next_word w = add32 (add32 (ssig1 (w ! 14)) (w ! 9)) (add32 (ssig0 (w ! 1)) (w ! 0))"

definition round256 :: "nat list \<times> nat list \<Rightarrow> nat \<Rightarrow> nat list \<times> nat list" where
  "round256 sw k =
     (let s = fst sw; w = snd sw;
          a = s ! 0; b = s ! 1; c = s ! 2; d = s ! 3; e = s ! 4; f = s ! 5; g = s ! 6; h = s ! 7;
          t1 = add32 (add32 (add32 h (bsig1 e)) (add32 (Ch e f g) k)) (w ! 0);
          t2 = add32 (bsig0 a) (Maj a b c)
      in ([add32 t1 t2, a, b, c, add32 d t1, e, f, g], tl w @ [next_word w]))"

definition compress :: "nat list \<Rightarrow> nat list \<Rightarrow> nat list" where
  "compress hs block = map2 add32 hs (fst (foldl round256 (hs, block) K256))"

text \<open>Big-endian words of the padded message, sixteen to a block.\<close>

fun be32 :: "nat list \<Rightarrow> nat list" where
  "be32 (a # b # c # d # rest) = (a * 16777216 + b * 65536 + c * 256 + d) # be32 rest"
| "be32 _ = []"

fun blocks :: "nat list \<Rightarrow> nat list list" where
  "blocks ws = (if length ws < 16 then [] else take 16 ws # blocks (drop 16 ws))"

declare blocks.simps [simp del]

definition pad :: "nat list \<Rightarrow> nat list" where
  "pad m =
     (let l = length m; k = (119 - l mod 64) mod 64
      in m @ [128] @ replicate k 0 @ map (\<lambda>i. (8 * l) div 256 ^ i mod 256) [7, 6, 5, 4, 3, 2, 1, 0])"

definition word_bytes :: "nat \<Rightarrow> nat list" where
  "word_bytes w = [w div 16777216, w div 65536 mod 256, w div 256 mod 256, w mod 256]"

definition sha256_words :: "nat list \<Rightarrow> nat list" where
  "sha256_words m = foldl compress H0 (blocks (be32 (pad m)))"

text \<open>\<^verbatim>\<open>sha256(m).digest()\<close>.\<close>

definition sha256 :: "bytes \<Rightarrow> bytes" where
  "sha256 m = map char_of (concat (map word_bytes (sha256_words (map of_char m))))"

definition B64_ALPHABET :: string where
  "B64_ALPHABET = ''ABCDEFGHIJKLMNOPQRSTUVWXYZ'' @ ''abcdefghijklmnopqrstuvwxyz''
     @ ''0123456789'' @ ''+/''"

fun b64 :: "nat list \<Rightarrow> string" where
  "b64 (a # b # c # rest) =
     [B64_ALPHABET ! (a div 4), B64_ALPHABET ! (a mod 4 * 16 + b div 16),
      B64_ALPHABET ! (b mod 16 * 4 + c div 64), B64_ALPHABET ! (c mod 64)] @ b64 rest"
| "b64 [a, b] =
     [B64_ALPHABET ! (a div 4), B64_ALPHABET ! (a mod 4 * 16 + b div 16),
      B64_ALPHABET ! (b mod 16 * 4), CHR ''='']"
| "b64 [a] = [B64_ALPHABET ! (a div 4), B64_ALPHABET ! (a mod 4 * 16), CHR ''='', CHR ''='']"
| "b64 [] = []"

definition b64encode :: "bytes \<Rightarrow> string" where
  "b64encode bs = b64 (map of_char bs)"

subsection \<open>\<^verbatim>\<open>unique_key_to_request_id\<close>\<close>

text \<open>Line 35: \<^verbatim>\<open>re.sub(r'(\+|\/|=)', '', base64_encoded)\<close> deletes every \<open>+\<close>, \<open>/\<close> and \<open>=\<close>.\<close>

definition url_safe_key :: "string \<Rightarrow> string" where
  "url_safe_key unique_key =
     (let hashed_key = sha256 unique_key;
          base64_encoded = b64encode hashed_key
      in filter (\<lambda>c. c \<notin> set ''+/='') base64_encoded)"

definition unique_key_to_request_id :: "string \<Rightarrow> int \<Rightarrow> string" where
  "unique_key_to_request_id unique_key request_id_length =
     slice_to request_id_length (url_safe_key unique_key)"

subsection \<open>The query string as the specification words it\<close>







subsection \<open>Lower-cased components\<close>

text \<open>The components of a URL with all but the scheme in lower case; used to state that
  \<^verbatim>\<open>geturl().lower()\<close> depends on the components up to case only.\<close>

definition lowered :: "SplitResult \<Rightarrow> SplitResult" where
  "lowered r = \<lparr>scheme = scheme r, netloc = lower (netloc r), path = lower (path r),
     query = lower (query r), fragment = lower (fragment r)\<rparr>"

subsection \<open>An instance of the parameters\<close>

text \<open>For closed examples: an interpreter whose two netloc checks accept, and a constant
  digest. None of the URLs of the examples has a bracket or a character outside ASCII, so
  the checks are never consulted on them.\<close>

definition stub :: externals where
  "stub = \<lparr>check_bracketed_host = (\<lambda>h. True), checknetloc_nfkc = (\<lambda>n. True),
            compute_short_hash = (\<lambda>b. ''short'')\<rparr>"

section \<open>The query string\<close>

lemma map_of_setitem: "map_of (setitem d k v) = (map_of d)(k \<mapsto> v)"
  by (induction d k v rule: setitem.induct) (auto simp add: fun_eq_iff)

lemma keys_setitem: "fst ` set (setitem d k v) = insert k (fst ` set d)"
  by (induction d k v rule: setitem.induct) auto

lemma distinct_setitem: "distinct (map fst d) \<Longrightarrow> distinct (map fst (setitem d k v))"
  by (induction d k v rule: setitem.induct) (auto simp add: keys_setitem)

lemma foldl_setitem:
  "distinct (map fst d) \<Longrightarrow>
     distinct (map fst (foldl (\<lambda>d (k, v). setitem d k v) d ps))
     \<and> map_of (foldl (\<lambda>d (k, v). setitem d k v) d ps) = map_of d ++ map_of (rev ps)"
proof (induction ps arbitrary: d)
  case Nil
  then show ?case by simp
next
  case (Cons p ps)
  obtain k v where p: "p = (k, v)" by (cases p)
  have "distinct (map fst (setitem d k v))"
    using Cons.prems by (rule distinct_setitem)
  from Cons.IH [OF this] show ?case
    by (simp add: p map_of_setitem map_add_upd_left [symmetric] fun_eq_iff map_add_def
        split: option.splits)
qed

lemma dict_of_props:
  "distinct (map fst (dict_of ps))" "map_of (dict_of ps) = map_of (rev ps)"
  using foldl_setitem [of "[]" ps] by (simp_all add: dict_of_def)


lemma map_of_filter_key:
  "map_of (filter (\<lambda>(k, v). P k) d) k = (if P k then map_of d k else None)"
  by (induction d) auto

lemma distinct_filter_key:
  "distinct (map fst d) \<Longrightarrow> distinct (map fst (filter (\<lambda>(k, v). P k) d))"
  by (simp add: distinct_map_filter)

lemma items_for_present:
  "set ks \<subseteq> fst ` set d \<Longrightarrow> items_for d ks = Inr (map (\<lambda>k. (k, the (map_of d k))) ks)"
proof (induction ks)
  case Nil
  then show ?case by simp
next
  case (Cons k ks)
  then have "k \<in> fst ` set d" by simp
  then obtain v where "map_of d k = Some v"
    by (metis map_of_eq_None_iff not_Some_eq)
  with Cons show ?case
    by (simp add: getitem_def)
qed







section \<open>The normalized URL\<close>

subsection \<open>Lower case\<close>

lemma isupper_iff: "isupper c \<longleftrightarrow> 65 \<le> (of_char c :: nat) \<and> (of_char c :: nat) \<le> 90"
  by (simp add: isupper_def less_eq_char_def)

lemma islower_iff: "islower c \<longleftrightarrow> 97 \<le> (of_char c :: nat) \<and> (of_char c :: nat) \<le> 122"
  by (simp add: islower_def less_eq_char_def)

lemma of_char_lower_char:
  "(of_char (lower_char c) :: nat) = (if isupper c then of_char c + 32 else of_char c)"
  by (simp add: lower_char_def isupper_iff)

lemma not_isupper_lower_char: "\<not> isupper (lower_char c)"
  by (simp add: isupper_iff of_char_lower_char)

lemma lower_char_idem: "lower_char (lower_char c) = lower_char c"
  using not_isupper_lower_char [of c] by (simp add: lower_char_def)

lemma lower_char_id: "\<not> isupper c \<Longrightarrow> lower_char c = c"
  by (simp add: lower_char_def)

lemma lower_char_eq_iff: "\<not> isalpha d \<Longrightarrow> lower_char c = d \<longleftrightarrow> c = d"
proof -
  assume d: "\<not> isalpha d"
  have "lower_char c \<noteq> d \<and> c \<noteq> d" if "isupper c"
  proof -
    have "(of_char (lower_char c) :: nat) = of_char c + 32"
      using that by (simp add: of_char_lower_char)
    then have "islower (lower_char c)"
      using that by (simp add: isupper_iff islower_iff)
    with that d show ?thesis
      by (auto simp add: isalpha_def)
  qed
  then show ?thesis
    by (cases "isupper c") (auto simp add: lower_char_id)
qed

lemma lower_char_mem: "list_all (\<lambda>c. \<not> isalpha c) cs \<Longrightarrow> lower_char a \<in> set cs \<longleftrightarrow> a \<in> set cs"
  by (induction cs) (auto simp add: lower_char_eq_iff)

lemma lower_idem: "lower (lower s) = lower s"
  by (simp add: lower_def lower_char_idem)

lemma lower_append: "lower (a @ b) = lower a @ lower b"
  by (simp add: lower_def)

lemma lower_Nil_iff: "lower s = [] \<longleftrightarrow> s = []"
  by (simp add: lower_def)

lemma lower_take: "lower (take n s) = take n (lower s)"
  by (simp add: lower_def take_map)

lemma lower_fixed: "list_all (\<lambda>c. \<not> isalpha c) t \<Longrightarrow> lower s = t \<longleftrightarrow> s = t"
proof (induction t arbitrary: s)
  case Nil
  then show ?case by (simp add: lower_def)
next
  case (Cons d t)
  then show ?case
    by (cases s) (auto simp add: lower_def lower_char_eq_iff)
qed

lemma dropWhile_lower:
  "list_all (\<lambda>c. \<not> isalpha c) cs \<Longrightarrow>
     dropWhile (\<lambda>c. c \<in> set cs) (lower s) = lower (dropWhile (\<lambda>c. c \<in> set cs) s)"
proof (induction s)
  case Nil
  then show ?case by (simp add: lower_def)
next
  case (Cons a s)
  have "lower_char a \<in> set cs \<longleftrightarrow> a \<in> set cs"
    using Cons.prems by (rule lower_char_mem)
  with Cons show ?case
    by (simp add: lower_def)
qed

lemma rstrip_slash_lower: "rstrip ''/'' (lower s) = lower (rstrip ''/'' s)"
proof -
  have "list_all (\<lambda>c. \<not> isalpha c) ''/''"
    by (simp add: isalpha_def isupper_iff islower_iff)
  from dropWhile_lower [OF this, of "rev s"] show ?thesis
    by (simp add: rstrip_def lower_def rev_map)
qed

lemma lower_eq_Nil: "lower a = lower b \<Longrightarrow> a = [] \<longleftrightarrow> b = []"
  by (metis lower_Nil_iff)

lemma lower_eq_take: "list_all (\<lambda>c. \<not> isalpha c) t \<Longrightarrow> take n s = t \<longleftrightarrow> take n (lower s) = t"
  by (metis lower_fixed lower_take)

lemma lower_eq_take_cong:
  assumes "lower a = lower b" and "list_all (\<lambda>c. \<not> isalpha c) t"
  shows "take n a = t \<longleftrightarrow> take n b = t"
  using assms by (simp add: lower_eq_take [of t n a] lower_eq_take [of t n b])

lemma slash_not_alpha: "list_all (\<lambda>c. \<not> isalpha c) ''/''" "list_all (\<lambda>c. \<not> isalpha c) ''//''"
  by (simp_all add: isalpha_def isupper_iff islower_iff)

lemma lower_Cons: "lower (c # s) = lower_char c # lower s"
  by (simp add: lower_def)

lemma lower_char_punct:
  "lower_char CHR '':'' = CHR '':''" "lower_char CHR ''/'' = CHR ''/''"
  "lower_char CHR ''?'' = CHR ''?''" "lower_char CHR ''#'' = CHR ''#''"
  "lower_char CHR '';'' = CHR '';''"
  by (simp_all add: lower_char_def isupper_iff)

lemma take_lower_slash:
  "take (Suc 0) (lower s) = ''/'' \<longleftrightarrow> take (Suc 0) s = ''/''"
  "take 2 (lower s) = ''//'' \<longleftrightarrow> take 2 s = ''//''"
  using lower_eq_take [OF slash_not_alpha(1), of "Suc 0" s]
    lower_eq_take [OF slash_not_alpha(2), of 2 s] by simp_all

lemma lower_urlunsplit: "lower (urlunsplit r) = lower (urlunsplit (lowered r))"
  by (simp add: urlunsplit_def lowered_def Let_def lower_append lower_Cons lower_char_punct
      lower_idem lower_Nil_iff take_lower_slash)

lemma lower_urlunsplit_cong:
  assumes "scheme r = scheme r'" and "lower (netloc r) = lower (netloc r')"
    and "lower (path r) = lower (path r')" and "lower (query r) = lower (query r')"
    and "lower (fragment r) = lower (fragment r')"
  shows "lower (urlunsplit r) = lower (urlunsplit r')"
proof -
  have "lowered r = lowered r'"
    using assms by (simp add: lowered_def)
  then show ?thesis
    by (simp add: lower_urlunsplit [of r] lower_urlunsplit [of r'])
qed

lemma lower_urlunparse_cong:
  assumes "scheme r = scheme r'" and "lower (netloc r) = lower (netloc r')"
    and "lower (path r) = lower (path r')" and "lower (params r) = lower (params r')"
    and "lower (query r) = lower (query r')" and "lower (fragment r) = lower (fragment r')"
  shows "lower (urlunparse r) = lower (urlunparse r')"
  unfolding urlunparse_def
  by (rule lower_urlunsplit_cong)
     (use assms in \<open>simp_all add: lower_append lower_Cons lower_char_punct lower_eq_Nil [OF assms(4)]\<close>)

lemma sorted_query_code:
  "sorted_query qs =
     Inr (urlencode (map (\<lambda>k. (k, the (map_of (filter (\<lambda>(k, v). \<not> prefix ''utm_'' k) (dict_of (parse_qsl qs))) k)))
       (sort (map fst (filter (\<lambda>(k, v). \<not> prefix ''utm_'' k) (dict_of (parse_qsl qs)))))))"
  by (simp add: sorted_query_def Let_def items_for_present)

lemma sorted_query_cong:
  assumes "map_of (rev (parse_qsl qs)) = map_of (rev (parse_qsl qs'))"
  shows "sorted_query qs = sorted_query qs'"
proof -
  let ?P = "\<lambda>k. \<not> prefix ''utm_'' k"
  let ?d = "filter (\<lambda>(k, v). ?P k) (dict_of (parse_qsl qs))"
  let ?d' = "filter (\<lambda>(k, v). ?P k) (dict_of (parse_qsl qs'))"
  have m: "map_of ?d = map_of ?d'"
    by (rule ext) (simp add: map_of_filter_key dict_of_props assms)
  then have "set (map fst ?d) = set (map fst ?d')"
    by (metis dom_map_of_conv_image_fst set_map)
  moreover have "distinct (map fst ?d)" "distinct (map fst ?d')"
    by (rule distinct_filter_key, rule dict_of_props)+
  ultimately have "sort (map fst ?d) = sort (map fst ?d')"
    by (intro sorted_distinct_set_unique) simp_all
  with m show ?thesis
    by (simp only: sorted_query_code)
qed

lemma split_not_Nil: "split c s \<noteq> []"
  by (induction s) (auto split: list.splits)

lemma hd_split: "hd (split c s) = takeWhile (\<lambda>x. x \<noteq> c) s"
  by (induction s) (auto simp add: split_not_Nil split: list.splits)

lemma lower_takeWhile_lower: "lower (takeWhile P (lower s)) = takeWhile P (lower s)"
  by (metis takeWhile_eq_take lower_take lower_idem)

lemma urlparse_upper_example:
  "urlparse stub (strip ''HTTP://Example.com/?b=2&a=1'') =
     Inr \<lparr>scheme = ''http'', netloc = ''Example.com'', path = ''/'', query = ''b=2&a=1'',
          fragment = [], params = []\<rparr>"
  by code_simp

lemma urlparse_lower_example:
  "urlparse stub (strip ''http://example.com/?a=1&b=2'') =
     Inr \<lparr>scheme = ''http'', netloc = ''example.com'', path = ''/'', query = ''a=1&b=2'',
          fragment = [], params = []\<rparr>"
  by code_simp

lemma parse_qsl_examples:
  "parse_qsl ''b=2&a=1'' = [(''b'', ''2''), (''a'', ''1'')]"
  "parse_qsl ''a=1&b=2'' = [(''a'', ''1''), (''b'', ''2'')]"
  by code_simp+

lemma lower_example:
  "lower ''Example.com'' = ''example.com''" "lower ''example.com'' = ''example.com''"
  by code_simp+

lemma normalize_url_lower_example:
  "normalize_url stub ''http://example.com/?a=1&b=2'' False = Inr ''http://example.com?a=1&b=2''"
  by code_simp

subsection \<open>Trailing slashes\<close>

lemma dropWhile_id: "xs = [] \<or> \<not> P (hd xs) \<Longrightarrow> dropWhile P xs = xs"
  by (cases xs) auto

lemma strip_id: "s \<noteq> [] \<Longrightarrow> \<not> isspace (hd s) \<Longrightarrow> \<not> isspace (last s) \<Longrightarrow> strip s = s"
proof -
  assume a: "s \<noteq> []" "\<not> isspace (hd s)" "\<not> isspace (last s)"
  have 1: "dropWhile isspace s = s"
    using a(2) by (intro dropWhile_id) simp
  have "hd (rev s) = last s"
    using a(1) by (simp add: hd_rev)
  then have 2: "dropWhile isspace (rev s) = rev s"
    using a(3) by (intro dropWhile_id) simp
  show ?thesis
    by (simp add: strip_def 1 2)
qed

lemma dropWhile_replicate_append:
  "P c \<Longrightarrow> dropWhile P (replicate n c @ t) = dropWhile P t"
  by (induction n) simp_all

lemma rstrip_replicate: "c \<in> set cs \<Longrightarrow> rstrip cs (s @ replicate n c) = rstrip cs s"
  by (simp add: rstrip_def dropWhile_replicate_append)

lemma rstrip_no_trailing: "rstrip cs s = [] \<or> last (rstrip cs s) \<notin> set cs"
proof -
  have "dropWhile (\<lambda>c. c \<in> set cs) (rev s) = [] \<or> hd (dropWhile (\<lambda>c. c \<in> set cs) (rev s)) \<notin> set cs"
    using hd_dropWhile [of "\<lambda>c. c \<in> set cs" "rev s"] by blast
  then show ?thesis
    by (auto simp add: rstrip_def last_rev)
qed

lemma rstrip_id: "s = [] \<or> last s \<notin> set cs \<Longrightarrow> rstrip cs s = s"
proof -
  assume a: "s = [] \<or> last s \<notin> set cs"
  have "dropWhile (\<lambda>c. c \<in> set cs) (rev s) = rev s"
    using a by (intro dropWhile_id) (auto simp add: hd_rev)
  then show ?thesis
    by (simp add: rstrip_def)
qed

lemma lstrip_id: "s = [] \<or> hd s \<notin> set cs \<Longrightarrow> lstrip cs s = s"
  unfolding lstrip_def by (rule dropWhile_id) simp

lemma find_append_first:
  "c \<notin> set a \<Longrightarrow> find c (a @ c # t) = Some (length a)"
  by (induction a) auto

lemma find_None_iff: "find c s = None \<longleftrightarrow> c \<notin> set s"
  by (induction s) auto

lemma find_Some_takeWhile: "find c s = Some i \<Longrightarrow> i = length (takeWhile (\<lambda>x. x \<noteq> c) s) \<and> c \<in> set s"
  by (induction s arbitrary: i) (auto split: if_splits)

lemma colon_not_scheme_char: "CHR '':'' \<notin> set scheme_chars"
  by (simp add: scheme_chars_def)

lemma scheme_chars_no_colon: "list_all (\<lambda>c. c \<in> set scheme_chars) S \<Longrightarrow> CHR '':'' \<notin> set S"
  using colon_not_scheme_char by (induction S) auto

lemma split_scheme_valid:
  assumes "S \<noteq> []" and "isalpha (hd S)" and "list_all (\<lambda>c. c \<in> set scheme_chars) S"
  shows "split_scheme (S @ CHR '':'' # t) = (lower S, t)"
proof -
  have "find CHR '':'' (S @ CHR '':'' # t) = Some (length S)"
    using assms(3) by (intro find_append_first scheme_chars_no_colon)
  moreover have "hd (S @ CHR '':'' # t) = hd S"
    using assms(1) by simp
  ultimately show ?thesis
    using assms by (simp add: split_scheme_def)
qed

lemma splitnetloc_parts:
  assumes "list_all (\<lambda>c. c \<notin> set ''/?#'') N" and "t = [] \<or> hd t \<in> set ''/?#''"
  shows "splitnetloc (''//'' @ N @ t) = (N, t)"
proof -
  have "takeWhile (\<lambda>c. c \<notin> set ''/?#'') (N @ t) = N \<and> dropWhile (\<lambda>c. c \<notin> set ''/?#'') (N @ t) = t"
    using assms by (cases t) (auto simp add: list_all_iff takeWhile_append2 dropWhile_append2)
  then show ?thesis
    by (simp add: splitnetloc_def)
qed

lemma isalpha_not_c0: "isalpha c \<Longrightarrow> c \<notin> set WHATWG_C0_CONTROL_OR_SPACE"
proof
  assume a: "isalpha c" and "c \<in> set WHATWG_C0_CONTROL_OR_SPACE"
  then obtain n :: nat where "n < 33" "c = char_of n"
    by (auto simp add: WHATWG_C0_CONTROL_OR_SPACE_def)
  then have "(of_char c :: nat) < 33"
    by simp
  with a show False
    by (simp add: isalpha_def isupper_iff islower_iff)
qed

lemma filter_id: "list_all P s \<Longrightarrow> filter P s = s"
  by (induction s) auto

lemma cut_at:
  "(if c \<in> set s then (case partition c s of (a, _, b) \<Rightarrow> (a, b)) else (s, [])) =
     (takeWhile (\<lambda>x. x \<noteq> c) s, drop 1 (dropWhile (\<lambda>x. x \<noteq> c) s))"
proof (cases "c \<in> set s")
  case True
  then show ?thesis by (simp add: partition_def)
next
  case False
  then have a: "\<forall>x\<in>set s. x \<noteq> c"
    by auto
  then have t: "takeWhile (\<lambda>x. x \<noteq> c) s = s" and d: "dropWhile (\<lambda>x. x \<noteq> c) s = []"
    by simp_all
  show ?thesis
    using False by (simp add: t d)
qed

lemma urlsplit_stages:
  assumes "lstrip WHATWG_C0_CONTROL_OR_SPACE u = u"
    and "filter (\<lambda>c. c \<notin> set UNSAFE_URL_BYTES_TO_REMOVE) u = u"
    and "split_scheme u = (sch, u3)"
    and "(if take 2 u3 = ''//'' then splitnetloc u3 else ([], u3)) = (nl, u4)"
    and "CHR ''['' \<notin> set nl" and "CHR '']'' \<notin> set nl" and "checknetloc X nl"
  shows "urlsplit X u =
     Inr \<lparr>scheme = sch, netloc = nl,
          path = takeWhile (\<lambda>x. x \<noteq> CHR ''?'') (takeWhile (\<lambda>x. x \<noteq> CHR ''#'') u4),
          query = drop 1 (dropWhile (\<lambda>x. x \<noteq> CHR ''?'') (takeWhile (\<lambda>x. x \<noteq> CHR ''#'') u4)),
          fragment = drop 1 (dropWhile (\<lambda>x. x \<noteq> CHR ''#'') u4)\<rparr>"
  using assms(5-7) by (simp add: urlsplit_def assms(1-4) cut_at Let_def)

lemma urlsplit_authority_path:
  assumes S: "S \<noteq> []" "isalpha (hd S)" "list_all (\<lambda>c. c \<in> set scheme_chars) S"
    and N: "list_all (\<lambda>c. c \<notin> set ''/?#[]'') N" "isascii N"
    and P: "P = [] \<or> hd P = CHR ''/''" "list_all (\<lambda>c. c \<notin> set ''?#'') P"
    and clean: "list_all (\<lambda>c. c \<notin> set UNSAFE_URL_BYTES_TO_REMOVE) (S @ N @ P)"
  shows "urlsplit X (S @ '':'' @ ''//'' @ N @ P) =
           Inr \<lparr>scheme = lower S, netloc = N, path = P, query = [], fragment = []\<rparr>"
proof -
  let ?u = "S @ '':'' @ ''//'' @ N @ P"
  have hd: "hd ?u = hd S"
    using S(1) by simp
  have 1: "lstrip WHATWG_C0_CONTROL_OR_SPACE ?u = ?u"
    using S(2) isalpha_not_c0 [of "hd S"] by (intro lstrip_id) (simp only: hd, simp)
  have 2: "filter (\<lambda>c. c \<notin> set UNSAFE_URL_BYTES_TO_REMOVE) ?u = ?u"
    using clean by (intro filter_id) (simp add: UNSAFE_URL_BYTES_TO_REMOVE_def)
  have 3: "split_scheme ?u = (lower S, ''//'' @ N @ P)"
    using split_scheme_valid [OF S, of "''//'' @ N @ P"] by simp
  have N': "list_all (\<lambda>c. c \<notin> set ''/?#'') N" "CHR ''['' \<notin> set N" "CHR '']'' \<notin> set N"
    using N(1) by (auto simp add: list_all_iff)
  have 4: "(if take 2 (''//'' @ N @ P) = ''//'' then splitnetloc (''//'' @ N @ P)
            else ([], ''//'' @ N @ P)) = (N, P)"
    using splitnetloc_parts [OF N'(1), of P] P(1) by auto
  have 5: "takeWhile (\<lambda>x. x \<noteq> CHR ''#'') P = P" "takeWhile (\<lambda>x. x \<noteq> CHR ''?'') P = P"
     "dropWhile (\<lambda>x. x \<noteq> CHR ''#'') P = []" "dropWhile (\<lambda>x. x \<noteq> CHR ''?'') P = []"
    using P(2) by (auto simp add: list_all_iff takeWhile_eq_all_conv)
  have 6: "checknetloc X N"
    using N(2) by (simp add: checknetloc_def)
  show ?thesis
    using urlsplit_stages [OF 1 2 3 4 N'(2,3) 6] by (simp add: 5)
qed

lemma urlparse_path_slashes:
  "urlparse X (''http://x.com/path'' @ replicate n CHR ''/'') =
     Inr \<lparr>scheme = ''http'', netloc = ''x.com'', path = ''/path'' @ replicate n CHR ''/'',
          query = [], fragment = [], params = []\<rparr>"
proof -
  have "urlsplit X (''http'' @ '':'' @ ''//'' @ ''x.com'' @ (''/path'' @ replicate n CHR ''/'')) =
     Inr \<lparr>scheme = lower ''http'', netloc = ''x.com'', path = ''/path'' @ replicate n CHR ''/'',
          query = [], fragment = []\<rparr>"
    by (rule urlsplit_authority_path)
       (simp_all add: isalpha_def isupper_iff islower_iff scheme_chars_def isascii_def less_char_def
          UNSAFE_URL_BYTES_TO_REMOVE_def list_all_iff)
  moreover have "lower ''http'' = ''http''"
    by code_simp
  ultimately show ?thesis
    by (simp add: urlparse_def uses_params_def)
qed

lemma rstrip_slashes: "\<exists>n. s = rstrip ''/'' s @ replicate n CHR ''/''"
proof -
  let ?t = "takeWhile (\<lambda>c. c \<in> set ''/'') (rev s)"
  have "rev s = ?t @ dropWhile (\<lambda>c. c \<in> set ''/'') (rev s)"
    by simp
  then have "s = rev (dropWhile (\<lambda>c. c \<in> set ''/'') (rev s)) @ rev ?t"
    by (metis rev_append rev_rev_ident)
  moreover have "rev ?t = replicate (length ?t) CHR ''/''"
    by (rule replicate_eqI) (auto dest: set_takeWhileD)
  ultimately show ?thesis
    unfolding rstrip_def by metis
qed

lemma sorted_query_empty: "sorted_query [] = Inr []"
  by code_simp

lemma isspace_slash: "\<not> isspace CHR ''/''"
  by (simp add: isspace_def)

lemma normalize_url_path_slashes:
  "normalize_url X (''http://x.com/path'' @ replicate n CHR ''/'') keep = Inr ''http://x.com/path''"
proof -
  let ?u = "''http://x.com/path'' @ replicate n CHR ''/''"
  have "last ?u = (if n = 0 then CHR ''h'' else CHR ''/'')"
    by simp
  then have "\<not> isspace (last ?u)"
    by (simp add: isspace_def)
  then have s: "strip ?u = ?u"
    by (intro strip_id) (simp_all add: isspace_def)
  have r: "rstrip ''/'' (''/path'' @ replicate n CHR ''/'') = ''/path''"
    using rstrip_replicate [of "CHR ''/''" "''/''" "''/path''" n] by (simp add: rstrip_def)
  have l: "lower ''http://x.com/path'' = ''http://x.com/path''"
    by code_simp
  show ?thesis
    unfolding normalize_url_def s urlparse_path_slashes
    by (simp add: sorted_query_empty r [unfolded append.simps] urlunparse_def urlunsplit_def
        uses_netloc_def l hd_split Let_def)
qed

lemma urlparse_root_slashes:
  "urlparse X (''http://x.com'' @ replicate n CHR ''/'') =
     Inr \<lparr>scheme = ''http'', netloc = ''x.com'', path = replicate n CHR ''/'',
          query = [], fragment = [], params = []\<rparr>"
proof -
  have "urlsplit X (''http'' @ '':'' @ ''//'' @ ''x.com'' @ replicate n CHR ''/'') =
     Inr \<lparr>scheme = lower ''http'', netloc = ''x.com'', path = replicate n CHR ''/'',
          query = [], fragment = []\<rparr>"
    by (rule urlsplit_authority_path; cases n)
       (simp_all add: isalpha_def isupper_iff islower_iff scheme_chars_def isascii_def less_char_def
          UNSAFE_URL_BYTES_TO_REMOVE_def list_all_iff)
  moreover have "lower ''http'' = ''http''"
    by code_simp
  ultimately show ?thesis
    by (simp add: urlparse_def uses_params_def)
qed

lemma normalize_url_root_slashes:
  "normalize_url X (''http://x.com'' @ replicate n CHR ''/'') keep = Inr ''http://x.com''"
proof -
  let ?u = "''http://x.com'' @ replicate n CHR ''/''"
  have "last ?u = (if n = 0 then CHR ''m'' else CHR ''/'')"
    by simp
  then have "\<not> isspace (last ?u)"
    by (simp add: isspace_def)
  then have s: "strip ?u = ?u"
    by (intro strip_id) (simp_all add: isspace_def)
  have r: "rstrip ''/'' (replicate n CHR ''/'') = []"
    using rstrip_replicate [of "CHR ''/''" "''/''" "[]" n] by (simp add: rstrip_def)
  have l: "lower ''http://x.com'' = ''http://x.com''"
    by code_simp
  show ?thesis
    unfolding normalize_url_def s urlparse_root_slashes
    by (simp add: sorted_query_empty r urlunparse_def urlunsplit_def
        uses_netloc_def l hd_split Let_def)
qed

text \<open>
  \<^bold>\<open>C2\<close>, as the specification states it, fails: \<^verbatim>\<open>rstrip('/')\<close> removes every trailing
  slash, so a path that ends in \<open>//\<close> keeps none.
\<close>

theorem two_trailing_slashes_removed:
  "normalize_url stub ''http://x.com/path//'' False = Inr ''http://x.com/path''
   \<and> normalize_url stub ''http://x.com/path//'' False \<noteq> Inr ''http://x.com/path/''"
proof -
  have "normalize_url stub ''http://x.com/path//'' False = Inr ''http://x.com/path''"
    by code_simp
  then show ?thesis
    by simp
qed

text \<open>
  \<^bold>\<open>C2\<close>, amended. \<^verbatim>\<open>normalize_url\<close> removes all the trailing slashes of the path, however
  many there are, and a path of slashes only, the root path \<open>/\<close> among them, becomes empty:
  \<^verbatim>\<open>http://x.com/path\<close> followed by any number of slashes is normalized to
  \<^verbatim>\<open>http://x.com/path\<close>, and \<^verbatim>\<open>http://x.com\<close> followed by any number of slashes to
  \<^verbatim>\<open>http://x.com\<close>. For every URL that parses, the URL is put together again from the
  parsed components with the new query and with the path cut before its trailing
  slashes: the path is the cut path and a run of slashes, and the cut path does not end
  in a slash.
\<close>

theorem all_trailing_slashes_removed:
  "normalize_url X (''http://x.com/path'' @ replicate n CHR ''/'') keep = Inr ''http://x.com/path''
   \<and> normalize_url X (''http://x.com'' @ replicate n CHR ''/'') keep = Inr ''http://x.com''
   \<and> (urlparse X (strip url) = Inr p \<longrightarrow>
        (\<exists>q. sorted_query (query p) = Inr q
           \<and> normalize_url X url True =
               Inr (lower (urlunparse (p\<lparr>query := q, path := rstrip ''/'' (path p)\<rparr>))))
        \<and> (\<exists>n. path p = rstrip ''/'' (path p) @ replicate n CHR ''/'')
        \<and> (rstrip ''/'' (path p) = [] \<or> last (rstrip ''/'' (path p)) \<noteq> CHR ''/''))"
proof (intro conjI impI)
  assume p: "urlparse X (strip url) = Inr p"
  obtain q where q: "sorted_query (query p) = Inr q"
    by (simp add: sorted_query_code)
  then show "\<exists>q. sorted_query (query p) = Inr q
           \<and> normalize_url X url True =
               Inr (lower (urlunparse (p\<lparr>query := q, path := rstrip ''/'' (path p)\<rparr>)))"
    by (simp add: normalize_url_def p Let_def)
  show "rstrip ''/'' (path p) = [] \<or> last (rstrip ''/'' (path p)) \<noteq> CHR ''/''"
    using rstrip_no_trailing [of "''/''" "path p"] by simp
qed (rule normalize_url_path_slashes normalize_url_root_slashes rstrip_slashes)+

theorem all_trailing_slashes_removed_witness:
  "normalize_url stub ''http://x.com/path///'' False = Inr ''http://x.com/path''
   \<and> normalize_url stub ''http://x.com/'' False = Inr ''http://x.com''
   \<and> normalize_url stub ''HTTP://Example.com/?b=2&a=1'' True = Inr ''http://example.com?a=1&b=2''"
proof -
  note T = all_trailing_slashes_removed [of stub 3 False "''HTTP://Example.com/?b=2&a=1''"]
  have 1: "normalize_url stub ''http://x.com/path///'' False = Inr ''http://x.com/path''"
    using T [THEN conjunct1] by (simp add: numeral_3_eq_3)
  have 2: "normalize_url stub ''http://x.com/'' False = Inr ''http://x.com''"
    using all_trailing_slashes_removed [of stub 1 False, THEN conjunct2, THEN conjunct1] by simp
  have 3: "normalize_url stub ''HTTP://Example.com/?b=2&a=1'' True = Inr ''http://example.com?a=1&b=2''"
    by code_simp
  from 1 2 3 show ?thesis
    by simp
qed

subsection \<open>The characters of the normalized URL\<close>

text \<open>A successful \<^verbatim>\<open>urlsplit\<close> in its stages; the components of a parsed URL are made of
  the characters of the URL; \<^verbatim>\<open>urlencode\<close> writes ASCII characters only. So the normalized
  URL of an ASCII URL is ASCII, and \<^verbatim>\<open>str.lower\<close> is on it what \<open>lower\<close> is.\<close>

lemma urlsplit_Inr:
  assumes "urlsplit X u = Inr r"
  obtains sch u3 nl u4 where
    "split_scheme (filter (\<lambda>c. c \<notin> set UNSAFE_URL_BYTES_TO_REMOVE) (lstrip WHATWG_C0_CONTROL_OR_SPACE u)) = (sch, u3)"
    "(if take 2 u3 = ''//'' then splitnetloc u3 else ([], u3)) = (nl, u4)"
    "r = \<lparr>scheme = sch, netloc = nl,
          path = takeWhile (\<lambda>x. x \<noteq> CHR ''?'') (takeWhile (\<lambda>x. x \<noteq> CHR ''#'') u4),
          query = drop 1 (dropWhile (\<lambda>x. x \<noteq> CHR ''?'') (takeWhile (\<lambda>x. x \<noteq> CHR ''#'') u4)),
          fragment = drop 1 (dropWhile (\<lambda>x. x \<noteq> CHR ''#'') u4)\<rparr>"
proof -
  obtain sch u3 where s: "split_scheme (filter (\<lambda>c. c \<notin> set UNSAFE_URL_BYTES_TO_REMOVE) (lstrip WHATWG_C0_CONTROL_OR_SPACE u)) = (sch, u3)"
    by (cases "split_scheme (filter (\<lambda>c. c \<notin> set UNSAFE_URL_BYTES_TO_REMOVE) (lstrip WHATWG_C0_CONTROL_OR_SPACE u))")
  obtain nl u4 where n: "(if take 2 u3 = ''//'' then splitnetloc u3 else ([], u3)) = (nl, u4)"
    by (cases "(if take 2 u3 = ''//'' then splitnetloc u3 else ([], u3))")
  have "r = \<lparr>scheme = sch, netloc = nl,
          path = takeWhile (\<lambda>x. x \<noteq> CHR ''?'') (takeWhile (\<lambda>x. x \<noteq> CHR ''#'') u4),
          query = drop 1 (dropWhile (\<lambda>x. x \<noteq> CHR ''?'') (takeWhile (\<lambda>x. x \<noteq> CHR ''#'') u4)),
          fragment = drop 1 (dropWhile (\<lambda>x. x \<noteq> CHR ''#'') u4)\<rparr>"
    using assms unfolding urlsplit_def Let_def s prod.case n cut_at
    by (simp split: if_splits)
  with s n that show thesis by blast
qed

lemma set_strip: "set (strip s) \<subseteq> set s"
  unfolding strip_def by (auto dest!: set_dropWhileD)

lemma set_rstrip: "set (rstrip cs s) \<subseteq> set s"
  unfolding rstrip_def by (auto dest!: set_dropWhileD)

lemma set_lstrip: "set (lstrip cs s) \<subseteq> set s"
  unfolding lstrip_def by (auto dest!: set_dropWhileD)

lemma set_split_scheme:
  "split_scheme u = (a, b) \<Longrightarrow> set a \<subseteq> lower_char ` set u \<and> set b \<subseteq> set u"
  unfolding split_scheme_def
  by (auto simp: lower_def split: option.splits if_splits dest: in_set_dropD
      intro!: imageI dest!: in_set_takeD)

lemma set_splitnetloc: "splitnetloc u = (a, b) \<Longrightarrow> set a \<subseteq> set u \<and> set b \<subseteq> set u"
  unfolding splitnetloc_def
  by (auto dest: set_takeWhileD set_dropWhileD in_set_dropD)

lemma set_urlsplit:
  assumes "urlsplit X u = Inr r"
  shows "set (scheme r) \<subseteq> lower_char ` set u" "set (netloc r) \<subseteq> set u" "set (path r) \<subseteq> set u"
    "set (query r) \<subseteq> set u" "set (fragment r) \<subseteq> set u"
proof -
  let ?v = "filter (\<lambda>c. c \<notin> set UNSAFE_URL_BYTES_TO_REMOVE) (lstrip WHATWG_C0_CONTROL_OR_SPACE u)"
  have v: "set ?v \<subseteq> set u" using set_lstrip by auto
  from assms obtain sch u3 nl u4 where
    s: "split_scheme ?v = (sch, u3)" and
    n: "(if take 2 u3 = ''//'' then splitnetloc u3 else ([], u3)) = (nl, u4)" and
    r: "r = \<lparr>scheme = sch, netloc = nl,
          path = takeWhile (\<lambda>x. x \<noteq> CHR ''?'') (takeWhile (\<lambda>x. x \<noteq> CHR ''#'') u4),
          query = drop 1 (dropWhile (\<lambda>x. x \<noteq> CHR ''?'') (takeWhile (\<lambda>x. x \<noteq> CHR ''#'') u4)),
          fragment = drop 1 (dropWhile (\<lambda>x. x \<noteq> CHR ''#'') u4)\<rparr>"
    by (rule urlsplit_Inr)
  from set_split_scheme [OF s] v have a: "set sch \<subseteq> lower_char ` set u" and u3: "set u3 \<subseteq> set u"
    by (blast, blast)
  from n u3 have b: "set nl \<subseteq> set u \<and> set u4 \<subseteq> set u"
    by (auto split: if_splits dest!: set_splitnetloc)
  show "set (scheme r) \<subseteq> lower_char ` set u" using a r by simp
  show "set (netloc r) \<subseteq> set u" using b r by simp
  show "set (path r) \<subseteq> set u" using b r by (auto dest!: set_takeWhileD)
  show "set (query r) \<subseteq> set u" using b r by (auto dest!: in_set_dropD set_dropWhileD set_takeWhileD)
  show "set (fragment r) \<subseteq> set u" using b r by (auto dest!: in_set_dropD set_dropWhileD)
qed

lemma set_splitparams: "splitparams s = (a, b) \<Longrightarrow> set a \<subseteq> set s \<and> set b \<subseteq> set s"
  unfolding splitparams_def
  by (auto split: option.splits dest: in_set_takeD in_set_dropD in_set_butlastD)

lemma set_urlparse:
  assumes "urlparse X u = Inr p"
  shows "set (scheme p) \<subseteq> lower_char ` set u" "set (netloc p) \<subseteq> set u" "set (path p) \<subseteq> set u"
    "set (query p) \<subseteq> set u" "set (fragment p) \<subseteq> set u" "set (params p) \<subseteq> set u"
proof -
  from assms obtain r where r: "urlsplit X u = Inr r"
    by (auto simp: urlparse_def split: sum.splits)
  obtain a b where ab: "(if scheme r \<in> set uses_params \<and> CHR '';'' \<in> set (path r)
                             then splitparams (path r) else (path r, '''')) = (a, b)"
    by (cases "(if scheme r \<in> set uses_params \<and> CHR '';'' \<in> set (path r)
                             then splitparams (path r) else (path r, ''''))")
  have p: "p = \<lparr>scheme = scheme r, netloc = netloc r, path = a, query = query r,
                   fragment = fragment r, params = b\<rparr>"
    using assms unfolding urlparse_def r sum.case Let_def ab by simp
  have "set a \<subseteq> set (path r) \<and> set b \<subseteq> set (path r)"
    using ab by (auto split: if_splits dest!: set_splitparams)
  with set_urlsplit [OF r] p
  show "set (scheme p) \<subseteq> lower_char ` set u" "set (netloc p) \<subseteq> set u" "set (path p) \<subseteq> set u"
    "set (query p) \<subseteq> set u" "set (fragment p) \<subseteq> set u" "set (params p) \<subseteq> set u"
    by auto
qed


lemma hexdig_upper_all: "list_all (\<lambda>n. hexdig ! n \<in> set ''0123456789ABCDEF'') [0 ..< 16]"
  by code_simp

lemma hexdig_upper: "n < 16 \<Longrightarrow> hexdig ! n \<in> set ''0123456789ABCDEF''"
  using hexdig_upper_all unfolding list_all_iff
  by (simp del: upt_Suc set_upt add: atLeastLessThan_upt [symmetric])

lemma div16: "(of_char (c::char) :: nat) div 16 < 16" "(of_char (c::char) :: nat) mod 16 < 16"
  by (simp_all add: less_mult_imp_div_less)

lemma hex_safe: "set ''0123456789ABCDEF'' \<subseteq> set ALWAYS_SAFE"
  by (simp add: ALWAYS_SAFE_def)

lemma hexdig_safe: "n < 16 \<Longrightarrow> hexdig ! n \<in> set ALWAYS_SAFE"
  using hexdig_upper [of n] hex_safe by blast

lemma set_quoter: "set (quoter safe c) \<subseteq> insert CHR ''%'' (set ALWAYS_SAFE \<union> set safe)"
  by (simp add: quoter_def hexdig_safe div16)

lemma set_replace: "set (replace a b s) \<subseteq> (set s - {a}) \<union> set b"
  by (auto simp: replace_def split: if_splits)

lemma set_quote: "set (quote safe s) \<subseteq> insert CHR ''%'' (set ALWAYS_SAFE \<union> set safe)"
  using set_quoter by (fastforce simp: quote_def)

lemma set_quote_plus: "set (quote_plus s) \<subseteq> set ALWAYS_SAFE \<union> set ''%+''"
proof (cases "CHR '' '' \<in> set s")
  case False
  then show ?thesis using set_quote [of "[]" s] by (auto simp: quote_plus_def)
next
  case True
  then show ?thesis
    using set_quote [of "'' ''" s] set_replace [of "CHR '' ''" "''+''" "quote '' '' s"]
    by (auto simp: quote_plus_def)
qed

lemma set_join:
  "set sep \<subseteq> A \<Longrightarrow> (\<And>p. p \<in> set ps \<Longrightarrow> set p \<subseteq> A) \<Longrightarrow> set (join sep ps) \<subseteq> A"
  by (induction sep ps rule: join.induct) auto

lemma set_urlencode: "set (urlencode q) \<subseteq> set ALWAYS_SAFE \<union> set ''%+=&''"
  unfolding urlencode_def
proof (rule set_join)
  show "set ''&'' \<subseteq> set ALWAYS_SAFE \<union> set ''%+=&''" by simp
next
  fix p assume "p \<in> set (map (\<lambda>(k, v). quote_plus k @ ''='' @ quote_plus v) q)"
  then obtain k v where p: "p = quote_plus k @ ''='' @ quote_plus v" by auto
  have "set (quote_plus k) \<subseteq> set ALWAYS_SAFE \<union> set ''%+=&''"
    "set (quote_plus v) \<subseteq> set ALWAYS_SAFE \<union> set ''%+=&''"
    using set_quote_plus [of k] set_quote_plus [of v] by auto
  then show "set p \<subseteq> set ALWAYS_SAFE \<union> set ''%+=&''"
    unfolding p by simp
qed

lemma isascii_iff: "isascii s \<longleftrightarrow> (\<forall>c \<in> set s. c < CHR 0x80)"
  by (simp add: isascii_def list_all_iff)

lemma isascii_subset: "set t \<subseteq> set s \<Longrightarrow> isascii s \<Longrightarrow> isascii t"
  by (auto simp: isascii_iff)

lemma isascii_append: "isascii (a @ b) \<longleftrightarrow> isascii a \<and> isascii b"
  by (simp add: isascii_def)

lemma lower_char_ascii: "lower_char c < CHR 0x80 \<longleftrightarrow> c < CHR 0x80"
  by (auto simp: lower_char_def isupper_def less_char_def less_eq_char_def)

lemma isascii_lower: "isascii (lower s) \<longleftrightarrow> isascii s"
  by (simp add: isascii_def lower_def list_all_iff lower_char_ascii)

lemma isascii_lower_image: "set t \<subseteq> lower_char ` set s \<Longrightarrow> isascii s \<Longrightarrow> isascii t"
  by (auto simp: isascii_iff lower_char_ascii)

lemma isascii_urlencode: "isascii (urlencode q)"
proof -
  have "c < CHR 0x80" if "c \<in> set ALWAYS_SAFE \<union> set ''%+=&''" for c
    using that by (auto simp: ALWAYS_SAFE_def less_char_def)
  with set_urlencode [of q] show ?thesis by (auto simp: isascii_iff)
qed

lemma isascii_urlunsplit:
  assumes "isascii (scheme r)" "isascii (netloc r)" "isascii (path r)" "isascii (query r)"
    "isascii (fragment r)"
  shows "isascii (urlunsplit r)"
proof -
  have l: "isascii ''//''" "isascii ''/''" "isascii '':''" "isascii ''?''" "isascii ''#''"
    by (simp_all add: isascii_def less_char_def)
  show ?thesis
    using assms unfolding urlunsplit_def Let_def isascii_def by (simp add: less_char_def)
qed

lemma isascii_urlunparse:
  assumes "isascii (scheme r)" "isascii (netloc r)" "isascii (path r)" "isascii (params r)"
    "isascii (query r)" "isascii (fragment r)"
  shows "isascii (urlunparse r)"
proof -
  have l: "isascii '';''" by (simp add: isascii_def less_char_def)
  show ?thesis
    unfolding urlunparse_def using assms
    by (intro isascii_urlunsplit) (simp_all add: isascii_def less_char_def)
qed

lemma normalize_url_Inr:
  assumes "normalize_url X u keep = Inr r"
  obtains p q where "urlparse X (strip u) = Inr p" "sorted_query (query p) = Inr q"
    "r = (if keep then lower (urlunparse (p\<lparr>query := q, path := rstrip ''/'' (path p)\<rparr>))
          else takeWhile (\<lambda>c. c \<noteq> CHR ''#'')
            (lower (urlunparse (p\<lparr>query := q, path := rstrip ''/'' (path p)\<rparr>))))"
  using assms unfolding normalize_url_def
  by (auto simp: hd_split Let_def split: sum.splits if_splits)

lemma isascii_normalize_url:
  assumes "isascii u" and "normalize_url X u keep = Inr r"
  shows "isascii r"
proof -
  from assms(2) obtain p q where p: "urlparse X (strip u) = Inr p"
    and q: "sorted_query (query p) = Inr q"
    and r: "r = (if keep then lower (urlunparse (p\<lparr>query := q, path := rstrip ''/'' (path p)\<rparr>))
          else takeWhile (\<lambda>c. c \<noteq> CHR ''#'')
            (lower (urlunparse (p\<lparr>query := q, path := rstrip ''/'' (path p)\<rparr>))))"
    by (rule normalize_url_Inr)
  have s: "isascii (strip u)"
    using set_strip assms(1) by (rule isascii_subset)
  have c: "isascii (scheme p)" "isascii (netloc p)" "isascii (path p)" "isascii (params p)"
      "isascii (fragment p)"
    using set_urlparse [OF p] s by (blast intro: isascii_subset isascii_lower_image)+
  have "isascii q"
    using q by (auto simp: sorted_query_code isascii_urlencode)
  moreover have "isascii (rstrip ''/'' (path p))"
    using set_rstrip c(3) by (rule isascii_subset)
  ultimately have "isascii (urlunparse (p\<lparr>query := q, path := rstrip ''/'' (path p)\<rparr>))"
    using c by (intro isascii_urlunparse) simp_all
  then have "isascii (lower (urlunparse (p\<lparr>query := q, path := rstrip ''/'' (path p)\<rparr>)))"
    by (simp add: isascii_lower)
  then show ?thesis
    unfolding r by (auto simp: isascii_iff dest: set_takeWhileD)
qed


subsection \<open>The rebuilt query\<close>







subsection \<open>Case and order\<close>

text \<open>
  \<^bold>\<open>C8\<close>, as the specification states it, fails: a \<^verbatim>\<open>dict\<close> keeps the last value of a
  repeated key, so two URLs that differ only in the order of two parameters of the same
  key have different normalized URLs.
\<close>

theorem repeated_key_order_matters:
  "normalize_url stub ''http://x.com/?a=1&a=2'' False = Inr ''http://x.com?a=2''
   \<and> normalize_url stub ''http://x.com/?a=2&a=1'' False = Inr ''http://x.com?a=1''"
  by code_simp

text \<open>
  \<^bold>\<open>C8\<close>, amended. Two ASCII URLs whose parsed components differ only in the case of the
  letters outside the query (the scheme, which \<^verbatim>\<open>urlsplit\<close> returns in lower case, the
  netloc, and also the path, the parameters and the fragment) and in the order of their
  query parameters, no key being repeated, have the same normalized URL; and the
  normalized URL of an ASCII URL is ASCII and in lower case as a whole, path and query
  included. The witness is the pair of the specification, \<^verbatim>\<open>HTTP://Example.com/?b=2&a=1\<close>
  and \<^verbatim>\<open>http://example.com/?a=1&b=2\<close>.
\<close>

theorem normalize_url_case_and_order:
  "(isascii u \<and> isascii u'
      \<and> urlparse X (strip u) = Inr p \<and> urlparse X (strip u') = Inr p'
      \<and> scheme p = scheme p' \<and> lower (netloc p) = lower (netloc p')
      \<and> lower (path p) = lower (path p') \<and> lower (params p) = lower (params p')
      \<and> lower (fragment p) = lower (fragment p')
      \<and> distinct (map fst (parse_qsl (query p))) \<and> distinct (map fst (parse_qsl (query p')))
      \<and> set (parse_qsl (query p)) = set (parse_qsl (query p'))
    \<longrightarrow> normalize_url X u keep = normalize_url X u' keep)
   \<and> (isascii u \<and> normalize_url X u keep = Inr r \<longrightarrow> isascii r \<and> lower r = r)"
proof (intro conjI impI)
  assume a: "isascii u \<and> isascii u'
      \<and> urlparse X (strip u) = Inr p \<and> urlparse X (strip u') = Inr p'
      \<and> scheme p = scheme p' \<and> lower (netloc p) = lower (netloc p')
      \<and> lower (path p) = lower (path p') \<and> lower (params p) = lower (params p')
      \<and> lower (fragment p) = lower (fragment p')
      \<and> distinct (map fst (parse_qsl (query p))) \<and> distinct (map fst (parse_qsl (query p')))
      \<and> set (parse_qsl (query p)) = set (parse_qsl (query p'))"
  then have "map_of (rev (parse_qsl (query p))) = map_of (rev (parse_qsl (query p')))"
    by (subst map_of_inject_set) (simp_all add: distinct_rev rev_map [symmetric])
  then have q: "sorted_query (query p) = sorted_query (query p')"
    by (rule sorted_query_cong)
  obtain t where t: "sorted_query (query p') = Inr t"
    by (simp add: sorted_query_code)
  have "lower (rstrip ''/'' (path p)) = lower (rstrip ''/'' (path p'))"
    using a by (simp add: rstrip_slash_lower [symmetric])
  then have "lower (urlunparse (p\<lparr>query := t, scheme := scheme p, netloc := netloc p,
                 path := rstrip ''/'' (path p)\<rparr>))
           = lower (urlunparse (p'\<lparr>query := t, scheme := scheme p', netloc := netloc p',
                 path := rstrip ''/'' (path p')\<rparr>))"
    using a by (intro lower_urlunparse_cong) simp_all
  then show "normalize_url X u keep = normalize_url X u' keep"
    using a by (simp add: normalize_url_def q t Let_def)
next
  assume "isascii u \<and> normalize_url X u keep = Inr r"
  then show "isascii r"
    by (blast intro: isascii_normalize_url)
next
  assume "isascii u \<and> normalize_url X u keep = Inr r"
  then show "lower r = r"
    by (auto simp add: normalize_url_def Let_def hd_split lower_idem lower_takeWhile_lower
        split: sum.splits if_splits)
qed

lemma isascii_examples:
  "isascii ''HTTP://Example.com/?b=2&a=1''" "isascii ''http://example.com/?a=1&b=2''"
  "isascii ''http://example.com?a=1&b=2''"
  by code_simp+

theorem normalize_url_case_and_order_witness:
  "isascii ''HTTP://Example.com/?b=2&a=1'' \<and> isascii ''http://example.com/?a=1&b=2''
   \<and> normalize_url stub ''HTTP://Example.com/?b=2&a=1'' False
     = normalize_url stub ''http://example.com/?a=1&b=2'' False
   \<and> normalize_url stub ''http://example.com/?a=1&b=2'' False = Inr ''http://example.com?a=1&b=2''
   \<and> isascii ''http://example.com?a=1&b=2''
   \<and> lower ''http://example.com?a=1&b=2'' = ''http://example.com?a=1&b=2''"
proof -
  note T = normalize_url_case_and_order [of "''HTTP://Example.com/?b=2&a=1''"
      "''http://example.com/?a=1&b=2''" stub _ _ False]
  have "normalize_url stub ''HTTP://Example.com/?b=2&a=1'' False
     = normalize_url stub ''http://example.com/?a=1&b=2'' False"
    by (rule T [THEN conjunct1, THEN mp])
       (auto simp add: urlparse_upper_example urlparse_lower_example parse_qsl_examples lower_example
          lower_idem isascii_examples)
  moreover have "isascii ''http://example.com?a=1&b=2''
      \<and> lower ''http://example.com?a=1&b=2'' = ''http://example.com?a=1&b=2''"
    using normalize_url_case_and_order [where X = stub and u = "''http://example.com/?a=1&b=2''"
        and keep = False and r = "''http://example.com?a=1&b=2''", THEN conjunct2]
    by (simp add: normalize_url_lower_example isascii_examples)
  ultimately show ?thesis
    by (simp add: normalize_url_lower_example isascii_examples)
qed

section \<open>The unique key\<close>

lemma normalize_url_empty: "normalize_url X [] keep = Inr []"
  by (simp add: normalize_url_def strip_def urlparse_def urlsplit_def lstrip_def split_scheme_def
      checknetloc_def uses_params_def sorted_query_def parse_qsl_def dict_of_def urlencode_def
      urlunparse_def urlunsplit_def lower_def rstrip_def Let_def)

lemma extended_key_empty:
  "extended_key X url method pl keep use_ext = [] \<longleftrightarrow>
     normalized_url X url keep = [] \<and> \<not> (use_ext \<and> payload_truthy pl)"
  by (simp add: extended_key_def)

text \<open>The specification's example of a malformed URL is parsed without an error: its key is
  the normalized URL, which here is the URL itself.\<close>

lemma spec_example_not_a_fallback:
  "normalize_url stub ''not a valid url:::'' False = Inr ''not a valid url:::''"
  by code_simp

text \<open>
  \<^bold>\<open>C1\<close>, as the specification states it, fails: the key of a non-empty URL can be empty.
  \<^verbatim>\<open>compute_unique_key('/')\<close> is the empty string, since the path \<open>/\<close> is stripped.
\<close>

theorem unique_key_empty_for_root:
  "compute_unique_key stub ''/'' ''GET'' None False False None None = []"
  by code_simp

text \<open>
  \<^bold>\<open>C1\<close>, amended. \<^verbatim>\<open>compute_unique_key\<close> returns a key for every URL: the one step of it
  that can raise is caught. When \<^verbatim>\<open>normalize_url\<close> raises, the URL as given stands in for the
  normalized URL, it is not empty, and neither is the key. In general the key is empty
  exactly when the normalized URL is empty, extended mode adds nothing and no header
  segment is added, which a non-empty URL such as \<open>/\<close> brings about.
\<close>

theorem unique_key_fallback:
  "(normalize_url X url keep = Inl e \<longrightarrow>
      normalized_url X url keep = url \<and> url \<noteq> []
      \<and> compute_unique_key X url method pl keep use_ext hs wl \<noteq> [])
   \<and> (compute_unique_key X url method pl keep use_ext hs wl = [] \<longleftrightarrow>
        normalized_url X url keep = [] \<and> \<not> (use_ext \<and> payload_truthy pl)
        \<and> \<not> (truthy hs \<and> truthy wl))"
proof -
  have 2: "compute_unique_key X url method pl keep use_ext hs wl = [] \<longleftrightarrow>
        normalized_url X url keep = [] \<and> \<not> (use_ext \<and> payload_truthy pl)
        \<and> \<not> (truthy hs \<and> truthy wl)"
    by (auto simp add: compute_unique_key_def extended_key_empty Let_def)
  have 1: "normalized_url X url keep = url \<and> url \<noteq> []" if "normalize_url X url keep = Inl e"
    using that normalize_url_empty [of X keep] by (auto simp add: normalized_url_def)
  from 1 2 show ?thesis
    by auto
qed

lemma normalize_url_open_bracket: "normalize_url stub ''http://[::1'' False = Inl Invalid_IPv6_URL"
  by code_simp

theorem unique_key_fallback_witness:
  "compute_unique_key stub ''http://[::1'' ''GET'' None False False None None = ''http://[::1''"
proof -
  have "normalized_url stub ''http://[::1'' False = ''http://[::1''"
    using unique_key_fallback [of stub "''http://[::1''" False Invalid_IPv6_URL]
    by (simp add: normalize_url_open_bracket)
  then show ?thesis
    by (simp add: compute_unique_key_def extended_key_def)
qed

lemma header_parts_eq:
  "header_parts hs wl =
     map (\<lambda>h. h @ '':'' @ the (map_of hs h)) (filter (\<lambda>h. map_of hs h \<noteq> None) wl)"
  by (induction wl) (auto split: option.splits)

lemma normalized_url_abc: "normalized_url stub ''http://a.b/c'' False = ''http://a.b/c''"
  by code_simp




text \<open>
  \<^bold>\<open>C6.\<close> With a non-empty \<^verbatim>\<open>headers\<close> and a non-empty \<^verbatim>\<open>whitelisted_headers\<close> the key is
  the key base, a \<open>|\<close>, and the entries \<^verbatim>\<open>name:value\<close> joined with \<open>|\<close>: one entry for every
  name of the whitelist that \<^verbatim>\<open>headers\<close> has, in the order of the whitelist, and nothing
  for a name it has not. The order of \<^verbatim>\<open>headers\<close> plays no part: two dictionaries with the
  same entries give the same key.
\<close>

theorem header_segment:
  "hs \<noteq> [] \<Longrightarrow> wl \<noteq> [] \<Longrightarrow>
     compute_unique_key X url method pl keep use_ext (Some hs) (Some wl) =
       extended_key X url method pl keep use_ext @ ''|''
       @ join ''|'' (map (\<lambda>h. h @ '':'' @ the (map_of hs h))
                        (filter (\<lambda>h. map_of hs h \<noteq> None) wl))
     \<and> (hs' \<noteq> [] \<and> map_of hs' = map_of hs \<longrightarrow>
         compute_unique_key X url method pl keep use_ext (Some hs') (Some wl) =
         compute_unique_key X url method pl keep use_ext (Some hs) (Some wl))"
  by (simp add: compute_unique_key_def header_parts_eq)

theorem header_segment_witness:
  "compute_unique_key stub ''http://a.b/c'' ''GET'' None False False
       (Some [(''Accept'', ''text/html''), (''Host'', ''a.b'')])
       (Some [''Host'', ''Cookie'', ''Accept''])
     = ''http://a.b/c|Host:a.b|Accept:text/html''
   \<and> compute_unique_key stub ''http://a.b/c'' ''GET'' None False False
       (Some [(''Host'', ''a.b''), (''Accept'', ''text/html'')])
       (Some [''Host'', ''Cookie'', ''Accept''])
     = ''http://a.b/c|Host:a.b|Accept:text/html''"
proof -
  let ?hs = "[(''Accept'', ''text/html''), (''Host'', ''a.b'')]"
  let ?hs' = "[(''Host'', ''a.b''), (''Accept'', ''text/html'')]"
  let ?wl = "[''Host'', ''Cookie'', ''Accept'']"
  have m: "?hs' \<noteq> [] \<and> map_of ?hs' = map_of ?hs"
    by (simp add: fun_eq_iff)
  have e: "extended_key stub ''http://a.b/c'' ''GET'' None False False = ''http://a.b/c''"
    by (simp add: extended_key_def normalized_url_abc)
  have j: "join ''|'' (map (\<lambda>h. h @ '':'' @ the (map_of ?hs h))
                        (filter (\<lambda>h. map_of ?hs h \<noteq> None) ?wl)) = ''Host:a.b|Accept:text/html''"
    by simp
  have ne: "?hs \<noteq> []" "?wl \<noteq> []"
    by simp_all
  note H = header_segment [OF ne, of stub "''http://a.b/c''" "''GET''" None False False ?hs']
  have 1: "compute_unique_key stub ''http://a.b/c'' ''GET'' None False False (Some ?hs) (Some ?wl)
           = ''http://a.b/c|Host:a.b|Accept:text/html''"
    using H [THEN conjunct1] by (simp only: e j) simp
  have 2: "compute_unique_key stub ''http://a.b/c'' ''GET'' None False False (Some ?hs') (Some ?wl)
           = compute_unique_key stub ''http://a.b/c'' ''GET'' None False False (Some ?hs) (Some ?wl)"
    using H [THEN conjunct2] m by (rule mp)
  show ?thesis
    using 1 2 by simp
qed

text \<open>
  \<^bold>\<open>C10.\<close> With a non-empty \<^verbatim>\<open>headers\<close>, a non-empty whitelist and no name of the whitelist
  in \<^verbatim>\<open>headers\<close>, the key is the key base and one \<open>|\<close> after it, which is not the key of
  the same call with \<^verbatim>\<open>headers=None\<close>.
\<close>

theorem no_whitelisted_header_present:
  "hs \<noteq> [] \<Longrightarrow> wl \<noteq> [] \<Longrightarrow> list_all (\<lambda>h. map_of hs h = None) wl \<Longrightarrow>
     compute_unique_key X url method pl keep use_ext (Some hs) (Some wl) =
       extended_key X url method pl keep use_ext @ ''|''
     \<and> compute_unique_key X url method pl keep use_ext (Some hs) (Some wl) \<noteq>
       compute_unique_key X url method pl keep use_ext None (Some wl)"
proof -
  assume a: "hs \<noteq> []" "wl \<noteq> []" "list_all (\<lambda>h. map_of hs h = None) wl"
  have "filter (\<lambda>h. map_of hs h \<noteq> None) wl = []"
    using a(3) by (simp add: list_all_iff filter_empty_conv)
  then have "header_parts hs wl = []"
    by (simp add: header_parts_eq)
  then show ?thesis
    using a(1,2) by (simp add: compute_unique_key_def)
qed

theorem no_whitelisted_header_present_witness:
  "compute_unique_key stub ''http://a.b/c'' ''GET'' None False False
       (Some [(''Accept'', ''text/html'')]) (Some [''Host'', ''Cookie''])
     = ''http://a.b/c|''
   \<and> compute_unique_key stub ''http://a.b/c'' ''GET'' None False False
       None (Some [''Host'', ''Cookie''])
     = ''http://a.b/c''"
proof -
  have e: "extended_key stub ''http://a.b/c'' ''GET'' None False False = ''http://a.b/c''"
    by (simp add: extended_key_def normalized_url_abc)
  have n: "compute_unique_key stub ''http://a.b/c'' ''GET'' None False False
       None (Some [''Host'', ''Cookie'']) = ''http://a.b/c''"
    by (simp add: compute_unique_key_def e)
  show ?thesis
    using no_whitelisted_header_present [of "[(''Accept'', ''text/html'')]"
        "[''Host'', ''Cookie'']" stub "''http://a.b/c''" "''GET''" None False False]
    by (simp add: e n)
qed

section \<open>The request ID\<close>

text \<open>The digest of the empty key, computed step by step: one block of padding, sixty-four
  rounds.\<close>

lemma round256_eval:
  "round256 ([a, b, c, d, e, f, g, h],
             [w0, w1, w2, w3, w4, w5, w6, w7, w8, w9, w10, w11, w12, w13, w14, w15]) k =
    ([add32 (add32 (add32 (add32 h (bsig1 e)) (add32 (Ch e f g) k)) w0) (add32 (bsig0 a) (Maj a b c)),
      a, b, c, add32 d (add32 (add32 (add32 h (bsig1 e)) (add32 (Ch e f g) k)) w0), e, f, g],
     [w1, w2, w3, w4, w5, w6, w7, w8, w9, w10, w11, w12, w13, w14, w15,
      add32 (add32 (ssig1 w14) w9) (add32 (ssig0 w1) w0)])"
  by (simp add: round256_def next_word_def Let_def)

lemma replicate_numeral: "replicate (numeral n) x = x # replicate (pred_numeral n) x"
  by (simp add: numeral_eq_Suc)

lemma pad_empty: "pad [] = 128 # replicate 63 0"
  by (simp add: pad_def replicate_numeral)

lemma blocks_empty:
  "blocks (be32 (pad [])) = [[2147483648, 0, 0, 0, 0, 0, 0, 0, 0, 0, 0, 0, 0, 0, 0, 0]]"
  by (simp add: pad_empty replicate_numeral blocks.simps)

lemma compress_empty:
  "compress H0 [2147483648, 0, 0, 0, 0, 0, 0, 0, 0, 0, 0, 0, 0, 0, 0, 0] =
     [3820012610, 2566659092, 2600203464, 2574235940, 665731556, 1687917388,
      2761267483, 2018687061]"
  by (simp add: compress_def K256_def H0_def round256_eval add32_def rotr_def shr_def Ch_def Maj_def
      bsig0_def bsig1_def ssig0_def ssig1_def)

lemma sha256_words_empty:
  "sha256_words [] =
     [3820012610, 2566659092, 2600203464, 2574235940, 665731556, 1687917388,
      2761267483, 2018687061]"
  by (simp add: sha256_words_def blocks_empty compress_empty)

lemma b64encode_sha256_empty:
  "b64encode (sha256 []) = ''47DEQpj8HBSa+/TImW+5JCeuQeRkm5NMpJWZG3hSuFU=''"
  by (simp add: b64encode_def sha256_def sha256_words_empty word_bytes_def B64_ALPHABET_def)

lemma url_safe_key_empty:
  "url_safe_key [] = ''47DEQpj8HBSaTImW5JCeuQeRkm5NMpJWZG3hSuFU''"
  by (simp add: url_safe_key_def b64encode_sha256_empty)

lemma length_round256: "length (fst (round256 sw k)) = 8"
  by (simp add: round256_def Let_def)

lemma length_foldl_round256: "ks \<noteq> [] \<Longrightarrow> length (fst (foldl round256 sw ks)) = 8"
  by (induction ks rule: rev_induct) (simp_all add: length_round256)

lemma K256_not_empty: "K256 \<noteq> []"
  by (simp add: K256_def)

lemma length_compress: "length hs = 8 \<Longrightarrow> length (compress hs b) = 8"
  by (simp add: compress_def length_foldl_round256 [OF K256_not_empty])

lemma length_foldl_compress: "length hs = 8 \<Longrightarrow> length (foldl compress hs bs) = 8"
  by (induction bs arbitrary: hs) (simp_all add: length_compress)

lemma length_concat_word_bytes: "length (concat (map word_bytes ws)) = 4 * length ws"
  by (induction ws) (simp_all add: word_bytes_def)

lemma length_sha256: "length (sha256 m) = 32"
  by (simp add: sha256_def sha256_words_def length_concat_word_bytes length_foldl_compress H0_def)

lemma length_b64: "length (b64 bs) = 4 * ((length bs + 2) div 3)"
proof (induction bs rule: b64.induct)
  case (1 a b c rest)
  have "(length rest + 3 + 2) div 3 = (length rest + 2) div 3 + 1"
    by arith
  with 1 show ?case
    by (simp add: add.commute)
qed simp_all

lemma b64_padding: "length bs mod 3 \<noteq> 0 \<Longrightarrow> CHR ''='' \<in> set (b64 bs)"
  by (induction bs rule: b64.induct) simp_all

lemma length_url_safe_key: "length (url_safe_key k) \<le> 43"
proof -
  let ?e = "b64encode (sha256 k)"
  have l: "length ?e = 44"
    by (simp add: b64encode_def length_b64 length_sha256)
  have "CHR ''='' \<in> set ?e"
    by (simp add: b64encode_def b64_padding length_sha256)
  then have "length (filter (\<lambda>c. c \<notin> set ''+/='') ?e) < length ?e"
    by (rule length_filter_less) simp
  then show ?thesis
    by (simp add: url_safe_key_def l)
qed

lemma slice_to_all: "int (length s) < n \<Longrightarrow> slice_to n s = s"
  by (simp add: slice_to_def)

lemma url_safe_chars: "c \<in> set (unique_key_to_request_id k n) \<Longrightarrow> c \<notin> set ''+/=''"
proof -
  assume "c \<in> set (unique_key_to_request_id k n)"
  then have "c \<in> set (url_safe_key k)"
    by (auto simp add: unique_key_to_request_id_def slice_to_def dest: in_set_takeD split: if_splits)
  then show ?thesis
    by (simp add: url_safe_key_def)
qed

text \<open>The default call on the empty key: \<^verbatim>\<open>unique_key_to_request_id('')\<close>.\<close>

lemma default_id_empty: "unique_key_to_request_id [] 15 = ''47DEQpj8HBSaTIm''"
  by (simp add: unique_key_to_request_id_def url_safe_key_empty slice_to_def)


text \<open>
  \<^bold>\<open>C9\<close>, as the specification states it, fails: a \<^verbatim>\<open>request_id_length\<close> beyond the
  characters that are left is not an error. \<^verbatim>\<open>unique_key_to_request_id('', request_id_length=44)\<close>
  returns the forty characters left of the digest of the empty key.
\<close>

theorem request_id_silently_short:
  "unique_key_to_request_id [] 44 = ''47DEQpj8HBSaTImW5JCeuQeRkm5NMpJWZG3hSuFU''
   \<and> length (unique_key_to_request_id [] 44) = 40"
  by (simp add: unique_key_to_request_id_def url_safe_key_empty slice_to_def)

text \<open>
  \<^bold>\<open>C9\<close>, amended. At most 43 characters are left of a digest once \<open>+\<close>, \<open>/\<close> and \<open>=\<close> are
  deleted (the 44 characters of the encoding always end in \<open>=\<close>). For every key and
  every \<^verbatim>\<open>request_id_length\<close> greater than the number of characters left, the function
  raises nothing and returns all the characters left, a string shorter than
  \<^verbatim>\<open>request_id_length\<close>.
\<close>

theorem request_id_beyond_available:
  "length (url_safe_key k) \<le> 43
   \<and> (int (length (url_safe_key k)) < n \<longrightarrow>
        unique_key_to_request_id k n = url_safe_key k
        \<and> int (length (unique_key_to_request_id k n)) < n)"
  by (simp add: length_url_safe_key unique_key_to_request_id_def slice_to_all)

theorem request_id_beyond_available_witness:
  "unique_key_to_request_id [] 100 = ''47DEQpj8HBSaTImW5JCeuQeRkm5NMpJWZG3hSuFU''"
  using request_id_beyond_available [of "[]" 100] by (simp add: url_safe_key_empty)


end
